theory Spec2Isabelle
  imports Main
begin

section \<open>Python strings\<close>

text \<open>
  A Python \<open>str\<close> is modelled as a \<open>string\<close>, a list of 8-bit characters read as the
  code points U+0000 to U+00FF. The character classes below are those the source's string
  methods and regular expressions distinguish on these code points.
\<close>

definition isspace :: "char \<Rightarrow> bool" where
  \<comment> \<open>\<open>str.isspace\<close>, which is also the whitespace of \<open>str.strip\<close>, \<open>str.split\<close> and the
      regular-expression class \<open>\s\<close>: TAB, LF, VT, FF, CR, the separators FS..US, SPACE,
      NEL (U+0085) and the no-break space (U+00A0)\<close>
  "isspace c = (let n = (of_char c :: nat) in
     (9 \<le> n \<and> n \<le> 13) \<or> (28 \<le> n \<and> n \<le> 32) \<or> n = 133 \<or> n = 160)"

definition isupper_ascii :: "char \<Rightarrow> bool" where
  \<comment> \<open>the regular-expression class \<open>[A-Z]\<close>\<close>
  "isupper_ascii c = (let n = (of_char c :: nat) in 65 \<le> n \<and> n \<le> 90)"

definition islower_ascii :: "char \<Rightarrow> bool" where
  \<comment> \<open>the regular-expression class \<open>[a-z]\<close>\<close>
  "islower_ascii c = (let n = (of_char c :: nat) in 97 \<le> n \<and> n \<le> 122)"

definition isdigit_ascii :: "char \<Rightarrow> bool" where
  "isdigit_ascii c = (let n = (of_char c :: nat) in 48 \<le> n \<and> n \<le> 57)"

definition lower_char :: "char \<Rightarrow> char" where
  \<comment> \<open>the upper-case letters below U+0100 are A..Z and U+00C0..U+00DE without U+00D7\<close>
  "lower_char c =
     (let n = (of_char c :: nat) in
      if (65 \<le> n \<and> n \<le> 90) \<or> (192 \<le> n \<and> n \<le> 222 \<and> n \<noteq> 215)
      then char_of (n + 32) else c)"

definition lower :: "string \<Rightarrow> string" where
  \<comment> \<open>\<open>s.lower()\<close>\<close>
  "lower s = map lower_char s"

fun startswith :: "string \<Rightarrow> string \<Rightarrow> bool" where
  \<comment> \<open>\<open>s.startswith(p)\<close>, written \<open>startswith s p\<close>\<close>
  "startswith s [] = True"
| "startswith [] (p # ps) = False"
| "startswith (c # cs) (p # ps) = (c = p \<and> startswith cs ps)"

fun py_in :: "string \<Rightarrow> string \<Rightarrow> bool" where
  \<comment> \<open>\<open>sub in s\<close>, written \<open>py_in sub s\<close>\<close>
  "py_in sub [] = (sub = [])"
| "py_in sub (c # cs) = (startswith (c # cs) sub \<or> py_in sub cs)"

definition lstrip_chars :: "(char \<Rightarrow> bool) \<Rightarrow> string \<Rightarrow> string" where
  "lstrip_chars P s = dropWhile P s"

definition rstrip_chars :: "(char \<Rightarrow> bool) \<Rightarrow> string \<Rightarrow> string" where
  "rstrip_chars P s = rev (dropWhile P (rev s))"

definition strip :: "string \<Rightarrow> string" where
  \<comment> \<open>\<open>s.strip()\<close>: leading and trailing whitespace removed\<close>
  "strip s = rstrip_chars isspace (lstrip_chars isspace s)"

definition py_slice :: "string \<Rightarrow> nat \<Rightarrow> nat \<Rightarrow> string" where
  \<comment> \<open>\<open>s[a:b]\<close> for indices \<open>0 \<le> a\<close>, \<open>0 \<le> b\<close>; a bound beyond the end is clipped\<close>
  "py_slice s a b = take (b - a) (drop a s)"

definition py_last :: "nat \<Rightarrow> string \<Rightarrow> string" where
  \<comment> \<open>\<open>s[-n:]\<close> for \<open>n > 0\<close>: the last \<open>n\<close> characters, or all of \<open>s\<close> when it is shorter\<close>
  "py_last n s = drop (length s - n) s"

definition py_any :: "('a \<Rightarrow> bool) \<Rightarrow> 'a list \<Rightarrow> bool" where
  \<comment> \<open>\<open>any(P(x) for x in xs)\<close>\<close>
  "py_any P xs = list_ex P xs"

section \<open>Exceptions\<close>

datatype py_error =
    AttributeError   \<comment> \<open>a method called on \<open>None\<close>\<close>
  | ValueError       \<comment> \<open>raised by \<open>urlparse\<close> on a malformed network location\<close>
  | ClientError      \<comment> \<open>a transport failure of the HTTP client (DNS, connection, decoding)\<close>
  | TimeoutError     \<comment> \<open>the request's 10 second timeout\<close>

section \<open>The page fetchers\<close>

text \<open>
  What the network answers to one GET request: either \<open>session.get\<close> raises, or a
  response arrives with a status and a body whose decoding (\<open>resp.text\<close>) may raise
  in turn.
\<close>

datatype http_outcome =
    GetRaises py_error
  | Response int "py_error + string"

type_synonym network = "string \<Rightarrow> http_outcome"

text \<open>The body of the \<open>try\<close> block of \<open>fetch\<close> (calendar mode).\<close>

definition fetch_try :: "network \<Rightarrow> string \<Rightarrow> py_error + (string \<times> string option)" where
  "fetch_try net url =
     (case net url of
        GetRaises e \<Rightarrow> Inl e
      | Response status body \<Rightarrow>
          if status \<ge> 400 then Inr (url, None)
          else (case body of Inl e \<Rightarrow> Inl e | Inr text \<Rightarrow> Inr (url, Some text)))"

text \<open>\<open>fetch\<close>: the \<open>try\<close> block under its handler \<open>except Exception: return url, None\<close>.\<close>

definition fetch :: "network \<Rightarrow> string \<Rightarrow> py_error + (string \<times> string option)" where
  "fetch net url =
     (case fetch_try net url of
        Inl e \<Rightarrow> Inr (url, None)
      | Inr r \<Rightarrow> Inr r)"

text \<open>
  The body of the \<open>try\<close> block of \<open>fetch_html\<close> (phone mode): it returns the text
  only under \<open>response.status == 200\<close>; \<open>None\<close> stands for falling out of the block
  without returning.
\<close>

definition fetch_html_try :: "network \<Rightarrow> string \<Rightarrow> py_error + string option" where
  "fetch_html_try net url =
     (case net url of
        GetRaises e \<Rightarrow> Inl e
      | Response status body \<Rightarrow>
          if status = 200 then (case body of Inl e \<Rightarrow> Inl e | Inr text \<Rightarrow> Inr (Some text))
          else Inr None)"

text \<open>\<open>fetch_html\<close>: handler \<open>except Exception: pass\<close>, then \<open>return ""\<close>.\<close>

definition fetch_html :: "network \<Rightarrow> string \<Rightarrow> py_error + string" where
  "fetch_html net url =
     (case fetch_html_try net url of
        Inl e \<Rightarrow> Inr []
      | Inr (Some text) \<Rightarrow> Inr text
      | Inr None \<Rightarrow> Inr [])"

section \<open>The URL library\<close>

text \<open>
  \<open>urllib.parse\<close> is not part of the repository: the functions of it that the
  scanners call are parameters of the model, taken as functions that return.
\<close>

record urllib =
  urlparse_scheme :: "string \<Rightarrow> string"        \<comment> \<open>\<open>urlparse(u).scheme\<close>\<close>
  urlparse_netloc :: "string \<Rightarrow> string"        \<comment> \<open>\<open>urlparse(u).netloc\<close>\<close>
  urlparse_path :: "string \<Rightarrow> string"          \<comment> \<open>\<open>urlparse(u).path\<close>\<close>
  urljoin :: "string \<Rightarrow> string \<Rightarrow> string"      \<comment> \<open>\<open>urljoin(base, url)\<close>\<close>

definition returning :: "('a \<Rightarrow> 'b) \<Rightarrow> 'a \<Rightarrow> py_error + 'b" where
  \<comment> \<open>a library function of the record above, as a call that returns\<close>
  "returning f x = Inr (f x)"

text \<open>
  What \<open>urlparse(u).scheme\<close> does in CPython (\<open>urlsplit\<close>), for concrete inputs. Leading C0
  control characters and spaces are dropped and TAB, CR and LF are removed. The text before
  the first colon is the scheme when it is not empty, starts with an ASCII letter and
  consists of letters, digits, \<open>+\<close>, \<open>-\<close> and \<open>.\<close> only. When the rest starts with \<open>//\<close>, the
  network location runs up to the next \<open>/\<close>, \<open>?\<close> or \<open>#\<close>, and the call raises
  \<open>ValueError\<close> when it has one of \<open>[\<close> and \<open>]\<close> without the other, or has both around
  a host that is not an IPv6 or IPvFuture address. That last test belongs to the package
  \<open>ipaddress\<close> and is the parameter \<open>bracketed_ok\<close>.
\<close>

definition scheme_char :: "char \<Rightarrow> bool" where
  "scheme_char c = (isupper_ascii c \<or> islower_ascii c \<or> isdigit_ascii c
     \<or> c = CHR ''+'' \<or> c = CHR ''-'' \<or> c = CHR ''.'')"

definition bracketed_host :: "string \<Rightarrow> string" where
  \<comment> \<open>\<open>netloc.partition('[')[2].partition(']')[0]\<close>\<close>
  "bracketed_host netloc =
     takeWhile (\<lambda>c. c \<noteq> CHR '']'') (drop 1 (dropWhile (\<lambda>c. c \<noteq> CHR ''['') netloc))"

definition urlsplit_scheme :: "(string \<Rightarrow> bool) \<Rightarrow> string \<Rightarrow> py_error + string" where
  "urlsplit_scheme bracketed_ok url0 =
     (let url = filter (\<lambda>c. (of_char c :: nat) \<notin> {9, 10, 13})
                  (dropWhile (\<lambda>c. (of_char c :: nat) \<le> 32) url0);
          pre = takeWhile (\<lambda>c. c \<noteq> CHR '':'') url;
          found = (CHR '':'' \<in> set url \<and> pre \<noteq> []
                   \<and> (isupper_ascii (hd url) \<or> islower_ascii (hd url))
                   \<and> list_all scheme_char pre);
          scheme = (if found then lower pre else []);
          rest = (if found then drop (length pre + 1) url else url)
      in if take 2 rest = ''//''
         then
           let netloc = takeWhile (\<lambda>c. c \<noteq> CHR ''/'' \<and> c \<noteq> CHR ''?'' \<and> c \<noteq> CHR ''#'')
                          (drop 2 rest);
               opening = (CHR ''['' \<in> set netloc);
               closing = (CHR '']'' \<in> set netloc)
           in if (opening \<and> \<not> closing) \<or> (closing \<and> \<not> opening) then Inl ValueError
              else if opening \<and> closing \<and> \<not> bracketed_ok (bracketed_host netloc)
              then Inl ValueError
              else Inr scheme
         else Inr scheme)"

section \<open>The URL normalizer\<close>

definition normalize_base_url ::
  "(string \<Rightarrow> py_error + string) \<Rightarrow> string \<Rightarrow> py_error + string" where
  \<comment> \<open>the first argument is \<open>urlparse(u).scheme\<close>, or the exception \<open>urlparse(u)\<close> raises;
      the function has no handler\<close>
  "normalize_base_url scheme_of raw0 =
     (let raw = strip raw0 in
      if raw = [] then Inr []
      else (case scheme_of raw of
              Inl e \<Rightarrow> Inl e
            | Inr scheme \<Rightarrow> if scheme = [] then Inr (''https://'' @ raw) else Inr raw))"

section \<open>The HTML parser\<close>

text \<open>
  BeautifulSoup is not part of the repository either. A tag is what \<open>analyze_page\<close>
  reads of it: \<open>tag.get("href")\<close>, \<open>tag.get("src")\<close> and \<open>tag.get_text()\<close>.
\<close>

record tag =
  tag_href :: "string option"
  tag_src :: "string option"
  tag_text :: string

record bs4 =
  find_all_tags :: "string \<Rightarrow> tag list"
    \<comment> \<open>\<open>BeautifulSoup(html, "html.parser").find_all(["a", "iframe", "script"])\<close>\<close>
  get_text :: "string \<Rightarrow> string"
    \<comment> \<open>\<open>BeautifulSoup(html, "html.parser").get_text(separator=" ", strip=True)\<close>\<close>

section \<open>Regular expressions of the calendar scanner\<close>

text \<open>
  The patterns of \<open>TEXT_PATTERNS\<close> use literals, alternation, \<open>?\<close> and concatenation
  only, so each matches finitely many strings, and \<open>re.search\<close> succeeds exactly when one
  of them occurs in the text.
\<close>

datatype rx = Lit string | Alt rx rx | Opt rx | Seq rx rx

fun rx_words :: "rx \<Rightarrow> string list" where
  "rx_words (Lit s) = [s]"
| "rx_words (Alt r q) = rx_words r @ rx_words q"
| "rx_words (Opt r) = [] # rx_words r"
| "rx_words (Seq r q) = concat (map (\<lambda>w. map (\<lambda>v. w @ v) (rx_words q)) (rx_words r))"

definition re_search :: "rx \<Rightarrow> string \<Rightarrow> bool" where
  "re_search r text = py_any (\<lambda>w. py_in w text) (rx_words r)"

section \<open>Calendar mode: configuration\<close>

definition CANDIDATE_PATHS :: "string list" where
  "CANDIDATE_PATHS =
     [[], ''/contact'', ''/contact-us'', ''/contactus'', ''/owners'', ''/owner'',
      ''/owner-services'', ''/property-management'', ''/property-management/'',
      ''/management'', ''/schedule'', ''/book'', ''/book-now'', ''/demo'', ''/consult'',
      ''/consultation'']"

definition SCHEDULER_HOST_PATTERNS :: "string list" where
  "SCHEDULER_HOST_PATTERNS =
     [''calendly.com'', ''hubspot.com/meetings'', ''acuityscheduling.com'',
      ''acuityscheduling.com'', ''youcanbook.me'', ''oncehub.com'', ''tidycal.com'',
      ''vcita.com'', ''squareup.com/appointments'', ''zoho.com/bookings'',
      ''microsoft.com/booking'', ''outlook.office365.com/book'', ''meetings.hubspot.com'']"

definition SCHEDULER_PATH_KEYWORDS :: "string list" where
  "SCHEDULER_PATH_KEYWORDS =
     [''schedule'', ''book'', ''booking'', ''appointment'', ''appointments'', ''consult'',
      ''consultation'', ''demo'', ''strategy-call'']"

text \<open>Each pattern of \<open>TEXT_PATTERNS\<close>: its source text (used in the evidence detail) and its syntax.\<close>

definition TEXT_PATTERNS :: "(string \<times> rx) list" where
  "TEXT_PATTERNS =
     [(''schedule (a )?(call|meeting|demo)'',
        Seq (Lit ''schedule '') (Seq (Opt (Lit ''a ''))
          (Alt (Lit ''call'') (Alt (Lit ''meeting'') (Lit ''demo''))))),
      (''book (a )?(call|meeting|demo)'',
        Seq (Lit ''book '') (Seq (Opt (Lit ''a ''))
          (Alt (Lit ''call'') (Alt (Lit ''meeting'') (Lit ''demo''))))),
      (''schedule your (call|demo|consultation)'',
        Seq (Lit ''schedule your '')
          (Alt (Lit ''call'') (Alt (Lit ''demo'') (Lit ''consultation'')))),
      (''book your (call|demo|consultation)'',
        Seq (Lit ''book your '')
          (Alt (Lit ''call'') (Alt (Lit ''demo'') (Lit ''consultation'')))),
      (''schedule an? (appointment|intro)'',
        Seq (Lit ''schedule a'') (Seq (Opt (Lit ''n'')) (Seq (Lit '' '')
          (Alt (Lit ''appointment'') (Lit ''intro''))))),
      (''owner (intro|consultation|call)'',
        Seq (Lit ''owner '')
          (Alt (Lit ''intro'') (Alt (Lit ''consultation'') (Lit ''call''))))]"

section \<open>Calendar mode: the signal extractor\<close>

text \<open>The four \<open>nonlocal\<close> variables of \<open>analyze_page\<close>, which are also its result.\<close>

record evidence =
  best_score :: int
  best_evidence_url :: "string option"
  best_type :: "string option"
  best_detail :: "string option"

definition no_evidence :: evidence where
  "no_evidence = \<lparr>best_score = 0, best_evidence_url = None, best_type = None, best_detail = None\<rparr>"

definition update :: "int \<Rightarrow> string \<Rightarrow> string \<Rightarrow> string \<Rightarrow> evidence \<Rightarrow> evidence" where
  "update score evidence_url typ detail st =
     (if score > best_score st
      then \<lparr>best_score = score, best_evidence_url = Some evidence_url,
            best_type = Some typ, best_detail = Some detail\<rparr>
      else st)"

text \<open>\<open>tag.get("href") or tag.get("src")\<close>, with \<open>None\<close> when the result is falsy (\<open>if not href: continue\<close>).\<close>

definition tag_url :: "tag \<Rightarrow> string option" where
  "tag_url t =
     (let href = (case tag_href t of
                    Some h \<Rightarrow> if h \<noteq> [] then Some h else tag_src t
                  | None \<Rightarrow> tag_src t)
      in case href of Some h \<Rightarrow> if h \<noteq> [] then Some h else None | None \<Rightarrow> None)"

definition check_hosts :: "string \<Rightarrow> string \<Rightarrow> evidence \<Rightarrow> evidence" where
  \<comment> \<open>\<open>for pattern in SCHEDULER_HOST_PATTERNS\<close>\<close>
  "check_hosts full_url href_lower st =
     fold (\<lambda>pattern st.
             if py_in pattern href_lower
             then update 100 full_url ''external_scheduler''
                    (''matched scheduler host pattern: '' @ pattern) st
             else st)
          SCHEDULER_HOST_PATTERNS st"

definition check_paths :: "string \<Rightarrow> string \<Rightarrow> evidence \<Rightarrow> evidence" where
  \<comment> \<open>\<open>for kw in SCHEDULER_PATH_KEYWORDS\<close>\<close>
  "check_paths full_url path st =
     fold (\<lambda>kw st.
             if py_in kw path
             then update (max (best_score st) 60) full_url ''internal_link''
                    (''matched path keyword: '' @ kw) st
             else st)
          SCHEDULER_PATH_KEYWORDS st"

definition check_anchor :: "string \<Rightarrow> string \<Rightarrow> evidence \<Rightarrow> evidence" where
  "check_anchor full_url anchor_text st =
     (if py_in ''schedule'' anchor_text \<or> py_in ''book'' anchor_text
      then update (max (best_score st) 50) full_url ''text''
             (''anchor text: '' @ take 80 anchor_text) st
      else st)"

text \<open>The body of the loop \<open>for tag in soup.find_all(...)\<close>.\<close>

definition analyze_tag :: "urllib \<Rightarrow> string \<Rightarrow> tag \<Rightarrow> evidence \<Rightarrow> evidence" where
  "analyze_tag U page_url t st =
     (case tag_url t of
        None \<Rightarrow> st
      | Some href \<Rightarrow>
          let full_url = urljoin U page_url href;
              href_lower = lower full_url;
              st1 = check_hosts full_url href_lower st;
              path = lower (urlparse_path U full_url);
              st2 = check_paths full_url path st1;
              anchor_text = lower (strip (tag_text t))
          in check_anchor full_url anchor_text st2)"

definition check_text :: "string \<Rightarrow> string \<Rightarrow> evidence \<Rightarrow> evidence" where
  \<comment> \<open>\<open>for pattern in TEXT_PATTERNS\<close>\<close>
  "check_text page_url full_text_lower st =
     fold (\<lambda>(pattern, r) st.
             if re_search r full_text_lower
             then update (max (best_score st) 70) page_url ''text''
                    (''matched text pattern: '' @ pattern) st
             else st)
          TEXT_PATTERNS st"

definition analyze_page :: "urllib \<Rightarrow> bs4 \<Rightarrow> string \<Rightarrow> string \<Rightarrow> evidence" where
  "analyze_page U B html page_url =
     (let st = fold (analyze_tag U page_url) (find_all_tags B html) no_evidence;
          full_text_lower = lower (get_text B html)
      in check_text page_url full_text_lower st)"

text \<open>Invariants of the evidence accumulator, used in the proofs below.\<close>

definition evidence_ok :: "evidence \<Rightarrow> bool" where
  "evidence_ok st =
     (best_score st \<in> {0, 50, 60, 70, 100}
      \<and> (best_score st = 0 \<longrightarrow>
           best_evidence_url st = None \<and> best_type st = None \<and> best_detail st = None)
      \<and> (best_score st \<noteq> 0 \<longrightarrow>
           best_evidence_url st \<noteq> None \<and> best_type st \<noteq> None \<and> best_detail st \<noteq> None))"



section \<open>Calendar mode: the site scanner\<close>

text \<open>
  A company is a row of \<open>csv.DictReader\<close>: a dictionary from column names to values,
  where the value is \<open>None\<close> for a column the row is too short to fill.
\<close>

type_synonym company = "string \<rightharpoonup> string option"

definition dict_get :: "company \<Rightarrow> string \<Rightarrow> string \<Rightarrow> string option" where
  \<comment> \<open>\<open>company.get(key, default)\<close>; the result is a Python value, \<open>None\<close> or a string\<close>
  "dict_get company key dflt =
     (case company key of None \<Rightarrow> Some dflt | Some v \<Rightarrow> v)"

record ScanResult =
  company_name :: "string option"
  website :: string
  calendar_confidence :: int
  evidence_url :: "string option"
  evidence_type :: "string option"
  evidence_detail :: "string option"

text \<open>\<open>if not html: continue\<close> skips both \<open>None\<close> and the empty string.\<close>

definition falsy :: "string option \<Rightarrow> bool" where
  "falsy html = (html = None \<or> html = Some [])"

definition candidate_url :: "urllib \<Rightarrow> string \<Rightarrow> string \<Rightarrow> string" where
  \<comment> \<open>\<open>urljoin(base_url.rstrip("/") + "/", path.lstrip("/"))\<close>\<close>
  "candidate_url U base_url path =
     urljoin U (rstrip_chars (\<lambda>c. c = CHR ''/'') base_url @ ''/'')
       (lstrip_chars (\<lambda>c. c = CHR ''/'') path)"

text \<open>
  The loop \<open>for path in CANDIDATE_PATHS\<close> of \<open>scan_site\<close>, on the paths still to visit.
  Its state is the best evidence so far and the log of the URLs requested so far.
\<close>

fun scan_paths ::
  "urllib \<Rightarrow> bs4 \<Rightarrow> network \<Rightarrow> string \<Rightarrow> string list \<Rightarrow> evidence \<Rightarrow> string list
     \<Rightarrow> (py_error + evidence) \<times> string list" where
  "scan_paths U B net base_url [] best log = (Inr best, log)"
| "scan_paths U B net base_url (path # paths) best log =
     (let url = candidate_url U base_url path in
      case fetch net url of
        Inl e \<Rightarrow> (Inl e, log @ [url])
      | Inr (url', html) \<Rightarrow>
          if falsy html then scan_paths U B net base_url paths best (log @ [url])
          else
            let page = analyze_page U B (the html) url';
                best' = (if best_score page > best_score best then page else best)
            in if best_score best' \<ge> 95 then (Inr best', log @ [url])
               else scan_paths U B net base_url paths best' (log @ [url]))"

definition scan_site ::
  "urllib \<Rightarrow> bs4 \<Rightarrow> network \<Rightarrow> company \<Rightarrow> string list
     \<Rightarrow> (py_error + ScanResult) \<times> string list" where
  "scan_site U B net company log =
     (case dict_get company ''website'' [] of
        None \<Rightarrow> (Inl AttributeError, log)
      | Some raw \<Rightarrow>
          (case normalize_base_url (returning (urlparse_scheme U)) raw of
             Inl e \<Rightarrow> (Inl e, log)
           | Inr base_url \<Rightarrow>
               let name = dict_get company ''company_name'' []
               in if base_url = []
                  then (Inr \<lparr>company_name = name, website = [], calendar_confidence = 0,
                            evidence_url = None, evidence_type = None,
                            evidence_detail = Some ''no_website''\<rparr>, log)
                  else
                    (case scan_paths U B net base_url CANDIDATE_PATHS no_evidence log of
                       (Inl e, log') \<Rightarrow> (Inl e, log')
                     | (Inr best, log') \<Rightarrow>
                         (Inr \<lparr>company_name = name, website = base_url,
                               calendar_confidence = best_score best,
                               evidence_url = best_evidence_url best,
                               evidence_type = best_type best,
                               evidence_detail = best_detail best\<rparr>, log'))))"


definition analyzed :: "urllib \<Rightarrow> bs4 \<Rightarrow> network \<Rightarrow> string list \<Rightarrow> evidence list" where
  "analyzed U B net urls =
     concat (map (\<lambda>url. case fetch net url of
                          Inr (url', html) \<Rightarrow>
                            if falsy html then [] else [analyze_page U B (the html) url']
                        | Inl e \<Rightarrow> []) urls)"


definition keep_best :: "evidence \<Rightarrow> evidence list \<Rightarrow> evidence" where
  \<comment> \<open>the running best after the pages, from left to right\<close>
  "keep_best best pages =
     fold (\<lambda>page best. if best_score page > best_score best then page else best) pages best"

section \<open>Phone mode: configuration\<close>

definition PAGES_TO_SCAN :: "string list" where
  "PAGES_TO_SCAN =
     [''/contact'', ''/contact-us'', ''/about'', ''/about-us'', ''/our-team'',
      ''/meet-the-team'', ''/staff'', ''/owners'', ''/property-management'', ''/emergency'']"

definition BLACKLIST_CONTEXT :: "string list" where
  "BLACKLIST_CONTEXT =
     [''llc'', ''license'', ''broker'', ''registered'', ''copyright'', ''reserved'',
      ''fax'', ''facsimile'', ''toll free'', ''reservations'', ''bookings'', ''front desk'']"

text \<open>The dictionary \<open>CATEGORIES\<close>: category name, then its keywords and its strategy.\<close>

definition CATEGORIES :: "(string \<times> string list \<times> string) list" where
  "CATEGORIES =
     [(''OPS_MAINTENANCE'',
        [''emergency'', ''after hours'', ''urgent'', ''maintenance'', ''on-call'',
         ''housekeeping'', ''cleaning'', ''inspector'', ''field''],
        ''Vendor/Maintenance Script''),
      (''DIRECT_MOBILE'',
        [''cell'', ''mobile'', ''direct'', ''text'', ''sms'', ''personal''],
        ''Text First / Direct Call''),
      (''GROWTH_OWNER'',
        [''owner services'', ''property management'', ''list with us'', ''homeowner'',
         ''revenue'', ''partnership''],
        ''Asset Protection Script''),
      (''NAMED_CONTACT'', [], ''Name Drop Call'')]"

definition category_keywords :: "string \<Rightarrow> string list" where
  \<comment> \<open>\<open>CATEGORIES[name]["keywords"]\<close>, for the names the source uses\<close>
  "category_keywords name = (case map_of CATEGORIES name of Some (ks, s) \<Rightarrow> ks | None \<Rightarrow> [])"

definition category_strategy :: "string \<Rightarrow> string" where
  \<comment> \<open>\<open>CATEGORIES[name]["strategy"]\<close>, for the names the source uses\<close>
  "category_strategy name = (case map_of CATEGORIES name of Some (ks, s) \<Rightarrow> s | None \<Rightarrow> [])"

section \<open>Phone mode: the phone-number library\<close>

text \<open>
  The \<open>phonenumbers\<close> package and the text extraction of BeautifulSoup are parameters. A
  match of \<open>PhoneNumberMatcher\<close> carries the parsed number and its span in the text.
\<close>

datatype PhoneNumber = PhoneNumber (country_code: int) (national_number: int)

record PhoneNumberMatch =
  number :: PhoneNumber
  match_start :: nat
  match_end :: nat

record phonelib =
  visible_text :: "string \<Rightarrow> string"
    \<comment> \<open>the soup of the page, its script, style, noscript and footer tags decomposed,
        then \<open>get_text(separator=" | ")\<close>\<close>
  PhoneNumberMatcher :: "string \<Rightarrow> PhoneNumberMatch list"
    \<comment> \<open>\<open>list(phonenumbers.PhoneNumberMatcher(text, "US"))\<close>\<close>
  format_number :: "PhoneNumber \<Rightarrow> string"
    \<comment> \<open>\<open>phonenumbers.format_number(n, PhoneNumberFormat.NATIONAL)\<close>\<close>

section \<open>Phone mode: the signal extractor\<close>

record SniperResult =
  lead_company_name :: "string option"
  lead_website :: string
  phone_number :: string
  contact_name :: "string option"
  role_or_context :: string
  category :: "string option"
  suggested_strategy :: "string option"
  confidence_score :: int

text \<open>\<open>" ".join(text.split())\<close>: the whitespace-separated words, joined by single spaces.\<close>

fun split_words :: "string \<Rightarrow> string \<Rightarrow> string list" where
  \<comment> \<open>the first argument is the word being read\<close>
  "split_words cur [] = (if cur = [] then [] else [cur])"
| "split_words cur (c # cs) =
     (if isspace c then (if cur = [] then split_words [] cs else cur # split_words [] cs)
      else split_words (cur @ [c]) cs)"

fun join_space :: "string list \<Rightarrow> string" where
  "join_space [] = []"
| "join_space [w] = w"
| "join_space (w # ws) = w @ '' '' @ join_space ws"

definition clean_text :: "string \<Rightarrow> string" where
  "clean_text text = join_space (split_words [] text)"

text \<open>
  The regular expression of \<open>extract_name_before_number\<close>,
  \<open>([A-Z][a-z]+(?:\s[A-Z][a-z]+){1,2})\<close>: a capitalized word is an upper-case letter and
  the longest run of lower-case letters after it (at least one; a shorter run cannot be
  followed by \<open>\s\<close> or by the end of the match preferred by the greedy quantifiers).
\<close>

definition match_word :: "string \<Rightarrow> (string \<times> string) option" where
  \<comment> \<open>\<open>[A-Z][a-z]+\<close> at the start of the text: the word and the rest\<close>
  "match_word s =
     (case s of
        [] \<Rightarrow> None
      | c # cs \<Rightarrow>
          if isupper_ascii c \<and> takeWhile islower_ascii cs \<noteq> []
          then Some (c # takeWhile islower_ascii cs, dropWhile islower_ascii cs)
          else None)"

definition match_next_word :: "string \<Rightarrow> (string \<times> string) option" where
  \<comment> \<open>\<open>\s[A-Z][a-z]+\<close> at the start of the text\<close>
  "match_next_word s =
     (case s of
        [] \<Rightarrow> None
      | c # cs \<Rightarrow>
          if isspace c
          then (case match_word cs of Some (w, rest) \<Rightarrow> Some (c # w, rest) | None \<Rightarrow> None)
          else None)"

definition match_name :: "string \<Rightarrow> string option" where
  \<comment> \<open>the whole pattern at the start of the text: two words, and a third when there is one\<close>
  "match_name s =
     (case match_word s of
        None \<Rightarrow> None
      | Some (w1, r1) \<Rightarrow>
          (case match_next_word r1 of
             None \<Rightarrow> None
           | Some (w2, r2) \<Rightarrow>
               (case match_next_word r2 of
                  None \<Rightarrow> Some (w1 @ w2)
                | Some (w3, r3) \<Rightarrow> Some (w1 @ w2 @ w3))))"

fun search_name :: "string \<Rightarrow> string option" where
  \<comment> \<open>\<open>re.search\<close>: the match at the leftmost position that has one\<close>
  "search_name [] = None"
| "search_name (c # cs) =
     (case match_name (c # cs) of Some name \<Rightarrow> Some name | None \<Rightarrow> search_name cs)"

definition FALSE_POSITIVES :: "string list" where
  "FALSE_POSITIVES =
     [''Contact Us'', ''Call Us'', ''Toll Free'', ''Phone Number'', ''Emergency Call'',
      ''After Hours'']"

text \<open>A capitalized word: an upper-case letter followed by one or more lower-case letters.\<close>

definition capitalized_word :: "string \<Rightarrow> bool" where
  "capitalized_word w =
     (case w of [] \<Rightarrow> False
      | c # cs \<Rightarrow> isupper_ascii c \<and> cs \<noteq> [] \<and> list_all islower_ascii cs)"

definition extract_name_before_number :: "string \<Rightarrow> string option" where
  "extract_name_before_number text_before =
     (let segment = py_last 40 text_before in
      case search_name segment of
        Some name \<Rightarrow> if lower name \<in> set FALSE_POSITIVES then None else Some name
      | None \<Rightarrow> None)"

text \<open>The context of a match: the local variables of \<open>analyze_number\<close> of those names.\<close>

definition text_before :: "string \<Rightarrow> nat \<Rightarrow> string" where
  "text_before text_content m_start = py_slice text_content (m_start - 60) m_start"

definition text_after :: "string \<Rightarrow> nat \<Rightarrow> string" where
  "text_after text_content m_end =
     py_slice text_content m_end (min (length text_content) (m_end + 60))"

definition full_context :: "string \<Rightarrow> nat \<Rightarrow> nat \<Rightarrow> string" where
  "full_context text_content m_start m_end =
     lower (text_before text_content m_start @ '' '' @ text_after text_content m_end)"

definition blacklisted :: "string \<Rightarrow> bool" where
  "blacklisted context = py_any (\<lambda>bad. py_in bad context) BLACKLIST_CONTEXT"

definition has_keyword :: "string \<Rightarrow> string \<Rightarrow> bool" where
  \<comment> \<open>\<open>any(k in full_context for k in CATEGORIES[name]["keywords"])\<close>\<close>
  "has_keyword name context = py_any (\<lambda>k. py_in k context) (category_keywords name)"

text \<open>Step 3 of \<open>analyze_number\<close>: category, strategy and confidence from the keywords.\<close>

definition category_check :: "string \<Rightarrow> string option \<times> string option \<times> int" where
  "category_check context =
     (if has_keyword ''OPS_MAINTENANCE'' context
      then (Some ''OPS_MAINTENANCE'', Some (category_strategy ''OPS_MAINTENANCE''), 90)
      else if has_keyword ''DIRECT_MOBILE'' context
      then (Some ''DIRECT_MOBILE'', Some (category_strategy ''DIRECT_MOBILE''), 95)
      else if has_keyword ''GROWTH_OWNER'' context
      then (Some ''GROWTH_OWNER'', Some (category_strategy ''GROWTH_OWNER''), 85)
      else (None, None, 0))"

text \<open>Step 4: the name check. A name and a category are truthy when not \<open>None\<close> and not empty.\<close>

definition name_check ::
  "string option \<Rightarrow> string option \<times> string option \<times> int
     \<Rightarrow> string option \<times> string option \<times> int" where
  "name_check extracted_name ccc =
     (case ccc of (cat, strat, confidence) \<Rightarrow>
        if extracted_name \<noteq> None \<and> extracted_name \<noteq> Some []
        then (if cat = None \<or> cat = Some []
              then (Some ''NAMED_CONTACT'', Some (category_strategy ''NAMED_CONTACT''), 80)
              else (cat, strat, 100))
        else (cat, strat, confidence))"

definition analyze_number ::
  "phonelib \<Rightarrow> PhoneNumber \<Rightarrow> string \<Rightarrow> nat \<Rightarrow> nat \<Rightarrow> SniperResult option" where
  "analyze_number P number_obj text_content m_start m_end =
     (let formatted_number = format_number P number_obj;
          t_before = text_before text_content m_start;
          t_after = text_after text_content m_end;
          context = full_context text_content m_start m_end
      in if blacklisted context then None
         else
           let extracted_name = extract_name_before_number t_before in
           case name_check extracted_name (category_check context) of
             (cat, strat, confidence) \<Rightarrow>
               if cat = None \<or> cat = Some [] then None
               else Some \<lparr>lead_company_name = Some [], lead_website = [],
                          phone_number = formatted_number,
                          contact_name = extracted_name,
                          role_or_context =
                            clean_text (py_last 30 t_before @ '' [NUM] '' @ take 30 t_after),
                          category = cat, suggested_strategy = strat,
                          confidence_score = confidence\<rparr>)"

section \<open>Phone mode: the site scanner\<close>

text \<open>
  The state of the page loop of \<open>process_company\<close>: \<open>found_leads\<close> and \<open>seen_numbers\<close>.
\<close>

type_synonym leads = "SniperResult list \<times> string set"

definition add_match ::
  "phonelib \<Rightarrow> string option \<Rightarrow> string \<Rightarrow> string \<Rightarrow> PhoneNumberMatch \<Rightarrow> leads \<Rightarrow> leads" where
  \<comment> \<open>the body of \<open>for match in matches\<close>\<close>
  "add_match P name base_url text_content m st =
     (case st of (found_leads, seen_numbers) \<Rightarrow>
        case analyze_number P (number m) text_content (match_start m) (match_end m) of
          None \<Rightarrow> st
        | Some result \<Rightarrow>
            if phone_number result \<notin> seen_numbers
            then (found_leads @ [result\<lparr>lead_company_name := name, lead_website := base_url\<rparr>],
                  insert (phone_number result) seen_numbers)
            else st)"

definition process_page ::
  "phonelib \<Rightarrow> network \<Rightarrow> string option \<Rightarrow> string \<Rightarrow> string \<Rightarrow> leads
     \<Rightarrow> py_error + leads" where
  \<comment> \<open>the body of \<open>for url in urls_to_scan\<close>\<close>
  "process_page P net name base_url url st =
     (case fetch_html net url of
        Inl e \<Rightarrow> Inl e
      | Inr html \<Rightarrow>
          if html = [] then Inr st
          else
            let text_content = visible_text P html;
                matches = PhoneNumberMatcher P text_content
            in if length matches > 15 then Inr st
               else Inr (fold (add_match P name base_url text_content) matches st))"

fun process_pages ::
  "phonelib \<Rightarrow> network \<Rightarrow> string option \<Rightarrow> string \<Rightarrow> string list \<Rightarrow> leads
     \<Rightarrow> py_error + leads" where
  "process_pages P net name base_url [] st = Inr st"
| "process_pages P net name base_url (url # urls) st =
     (case process_page P net name base_url url st of
        Inl e \<Rightarrow> Inl e
      | Inr st' \<Rightarrow> process_pages P net name base_url urls st')"

text \<open>
  \<open>urls_to_scan\<close> is a Python set, iterated in an order the language does not fix: the
  parameter \<open>iter\<close> gives the order in which the set built from a list of URLs is iterated.
\<close>

definition process_company ::
  "urllib \<Rightarrow> phonelib \<Rightarrow> network \<Rightarrow> (string list \<Rightarrow> string list) \<Rightarrow> company
     \<Rightarrow> py_error + SniperResult list" where
  "process_company U P net iter company =
     (case dict_get company ''website'' [] of
        None \<Rightarrow> Inl AttributeError
      | Some raw \<Rightarrow>
          let base_url0 = strip raw;
              name = dict_get company ''company_name'' ''Unknown''
          in if base_url0 = [] then Inr []
             else
               let base_url = (if startswith base_url0 ''http'' then base_url0
                               else ''https://'' @ base_url0);
                   base_domain = urlparse_scheme U base_url @ ''://'' @ urlparse_netloc U base_url;
                   urls_to_scan = iter (base_url # map (urljoin U base_domain) PAGES_TO_SCAN)
               in case process_pages P net name base_url urls_to_scan ([], {}) of
                    Inl e \<Rightarrow> Inl e
                  | Inr (found_leads, seen_numbers) \<Rightarrow> Inr found_leads)"

section \<open>The scan coordinators\<close>

text \<open>
  Both \<open>main\<close> functions start one task per company and await the tasks in the order in
  which they complete (\<open>asyncio.as_completed\<close>). The outcomes of the tasks, in completion
  order, are the input of the loop; \<open>await\<close> on a task that raised re-raises its exception,
  and neither loop has a handler.
\<close>

fun await_results :: "(py_error + 'r) list \<Rightarrow> 'r list \<Rightarrow> py_error + 'r list" where
  \<comment> \<open>calendar mode: \<open>result = await task; results.append(result)\<close>\<close>
  "await_results [] results = Inr results"
| "await_results (outcome # outcomes) results =
     (case outcome of
        Inl e \<Rightarrow> Inl e
      | Inr result \<Rightarrow> await_results outcomes (results @ [result]))"

definition completion :: "'c list \<Rightarrow> nat list \<Rightarrow> 'c list" where
  \<comment> \<open>the companies in the order in which their tasks complete\<close>
  "completion companies order = map (\<lambda>i. companies ! i) order"

definition main_calendar ::
  "urllib \<Rightarrow> bs4 \<Rightarrow> network \<Rightarrow> company list \<Rightarrow> nat list \<Rightarrow> py_error + ScanResult list" where
  \<comment> \<open>the loop of \<open>main\<close> in \<open>scan_calendars.py\<close>; \<open>order\<close> is a permutation of the task indices\<close>
  "main_calendar U B net companies order =
     await_results (map (\<lambda>c. fst (scan_site U B net c [])) (completion companies order)) []"

text \<open>
  Phone mode: a worker appends its leads to the CSV file when it completes, and the loop
  adds up \<open>total_leads\<close> and \<open>completed\<close>. The state is the file, then the two counters.
\<close>

fun await_counts ::
  "(py_error + SniperResult list) list \<Rightarrow> SniperResult list \<times> nat \<times> nat
     \<Rightarrow> (py_error + unit) \<times> SniperResult list \<times> nat \<times> nat" where
  "await_counts [] st = (Inr (), st)"
| "await_counts (outcome # outcomes) (csv, total_leads, completed) =
     (case outcome of
        Inl e \<Rightarrow> (Inl e, csv, total_leads, completed)
      | Inr results \<Rightarrow>
          await_counts outcomes (csv @ results, total_leads + length results, completed + 1))"

definition main_phone ::
  "urllib \<Rightarrow> phonelib \<Rightarrow> network \<Rightarrow> (string list \<Rightarrow> string list) \<Rightarrow> company list \<Rightarrow> nat list
     \<Rightarrow> (py_error + unit) \<times> SniperResult list \<times> nat \<times> nat" where
  \<comment> \<open>the loop of \<open>main\<close> in \<open>scan_phone_numbers.py\<close>\<close>
  "main_phone U P net iter companies order =
     await_counts (map (process_company U P net iter) (completion companies order)) ([], 0, 0)"

section \<open>Example inputs\<close>

definition net_203 :: network where
  "net_203 url = Response 203 (Inr ''<html>ok</html>'')"

definition net_ok :: network where
  "net_ok url = Response 200 (Inr ''<html>ok</html>'')"

text \<open>
  Stand-ins for the libraries on the example inputs. No bracketed host is accepted (the
  examples have none); the scheme is that of \<open>urlsplit\<close>, empty where it raises; an absolute
  URL joins to itself, a relative one is appended to a base ending in \<open>/\<close>; the path of
  \<open>scheme://host/path\<close> starts at the first \<open>/\<close> after the host.
\<close>

definition no_bracketed_host :: "string \<Rightarrow> bool" where
  "no_bracketed_host h = False"

definition example_scheme :: "string \<Rightarrow> string" where
  "example_scheme u = (case urlsplit_scheme no_bracketed_host u of Inr s \<Rightarrow> s | Inl e \<Rightarrow> [])"

definition example_urljoin :: "string \<Rightarrow> string \<Rightarrow> string" where
  "example_urljoin base url = (if example_scheme url \<noteq> [] then url else base @ url)"

definition example_netloc :: "string \<Rightarrow> string" where
  "example_netloc u =
     takeWhile (\<lambda>c. c \<noteq> CHR ''/'') (drop (length (example_scheme u) + 3) u)"

definition example_path :: "string \<Rightarrow> string" where
  "example_path u =
     takeWhile (\<lambda>c. c \<noteq> CHR ''?'' \<and> c \<noteq> CHR ''#'')
       (dropWhile (\<lambda>c. c \<noteq> CHR ''/'') (drop (length (example_scheme u) + 3) u))"

definition example_urllib :: urllib where
  "example_urllib =
     \<lparr>urlparse_scheme = example_scheme, urlparse_netloc = example_netloc,
      urlparse_path = example_path, urljoin = example_urljoin\<rparr>"

text \<open>
  Example pages as the parser reads them: a homepage with a Calendly link, a contact page
  with an internal scheduling link, a page embedding Calendly in an iframe, and a page
  whose only tag has both a fragment \<open>href\<close> and a Calendly \<open>src\<close>.
\<close>

definition acme_home_html :: string where
  "acme_home_html = ''<a href=\"https://calendly.com/acme\">Book a call</a>''"

definition acme_contact_html :: string where
  "acme_contact_html = ''<a href=\"https://acme.com/schedule\">Talk to us</a>''"

definition acme_iframe_html :: string where
  "acme_iframe_html = ''<iframe src=\"https://calendly.com/acme\"></iframe>''"

definition acme_shadowed_html :: string where
  "acme_shadowed_html = ''<iframe href=\"#top\" src=\"https://calendly.com/acme\"></iframe>''"

definition example_find_all :: "string \<Rightarrow> tag list" where
  "example_find_all html =
     (if html = acme_home_html
      then [\<lparr>tag_href = Some ''https://calendly.com/acme'', tag_src = None,
             tag_text = ''Book a call''\<rparr>]
      else if html = acme_contact_html
      then [\<lparr>tag_href = Some ''https://acme.com/schedule'', tag_src = None,
             tag_text = ''Talk to us''\<rparr>]
      else if html = acme_iframe_html
      then [\<lparr>tag_href = None, tag_src = Some ''https://calendly.com/acme'', tag_text = []\<rparr>]
      else if html = acme_shadowed_html
      then [\<lparr>tag_href = Some ''#top'', tag_src = Some ''https://calendly.com/acme'',
             tag_text = []\<rparr>]
      else [])"

definition example_get_text :: "string \<Rightarrow> string" where
  "example_get_text html =
     (if html = acme_home_html then ''Book a call''
      else if html = acme_contact_html then ''Talk to us''
      else [])"

definition example_bs4 :: bs4 where
  "example_bs4 = \<lparr>find_all_tags = example_find_all, get_text = example_get_text\<rparr>"

text \<open>
  An example company and network: \<open>acme.com\<close>, whose homepage carries the Calendly link
  and whose contact page the internal scheduling link; every other URL answers 404.
\<close>

definition acme :: company where
  "acme = [''company_name'' \<mapsto> Some ''Acme'', ''website'' \<mapsto> Some ''acme.com'']"

definition acme_net :: network where
  "acme_net url =
     (if url = ''https://acme.com/'' then Response 200 (Inr acme_home_html)
      else if url = ''https://acme.com/contact'' then Response 200 (Inr acme_contact_html)
      else Response 404 (Inr ''not found''))"

text \<open>
  A row too short to fill the website column, as \<open>csv.DictReader\<close> yields it for the line
  \<open>Shorty\<close> under the header \<open>company_name,website\<close>.
\<close>

definition short_row :: company where
  "short_row = [''company_name'' \<mapsto> Some ''Shorty'', ''website'' \<mapsto> None]"

text \<open>
  Stand-ins for the phone-number library on three example texts: a maintenance line, a
  named contact, and a directory of sixteen numbers.
\<close>

definition example_format :: "PhoneNumber \<Rightarrow> string" where
  "example_format p =
     (if p = PhoneNumber 1 5551234567 then ''(555) 123-4567''
      else if p = PhoneNumber 1 5552223333 then ''(555) 222-3333''
      else ''(555) 010-0000'')"

definition maintenance_text :: string where
  "maintenance_text = ''for maintenance call (555) 123-4567 now''"

definition named_text :: string where
  "named_text = ''Call Greg Ku at (555) 222-3333 for owner services''"

definition directory_text :: string where
  "directory_text =
     ''(555) 010-0000 (555) 010-0001 (555) 010-0002 (555) 010-0003 ''
     @ ''(555) 010-0004 (555) 010-0005 (555) 010-0006 (555) 010-0007 ''
     @ ''(555) 010-0008 (555) 010-0009 (555) 010-0010 (555) 010-0011 ''
     @ ''(555) 010-0012 (555) 010-0013 (555) 010-0014 (555) 010-0015''"

definition example_matcher :: "string \<Rightarrow> PhoneNumberMatch list" where
  "example_matcher text =
     (if text = maintenance_text
      then [\<lparr>number = PhoneNumber 1 5551234567, match_start = 21, match_end = 35\<rparr>]
      else if text = named_text
      then [\<lparr>number = PhoneNumber 1 5552223333, match_start = 16, match_end = 30\<rparr>]
      else if text = directory_text
      then map (\<lambda>i. \<lparr>number = PhoneNumber 1 (5550100000 + int i), match_start = 15 * i,
                      match_end = 15 * i + 14\<rparr>) [0..<16]
      else [])"

definition example_phonelib :: phonelib where
  "example_phonelib =
     \<lparr>visible_text = (\<lambda>html. html), PhoneNumberMatcher = example_matcher,
      format_number = example_format\<rparr>"

definition directory_net :: network where
  "directory_net url = Response 200 (Inr directory_text)"

section \<open>Properties of the page fetchers\<close>

lemma fetch_cases:
  "fetch net url = Inr (url,
     (case net url of
        Response status (Inr text) \<Rightarrow> if status < 400 then Some text else None
      | _ \<Rightarrow> None))"
  by (simp add: fetch_def fetch_try_def split: http_outcome.split sum.split)

lemma fetch_html_cases:
  "fetch_html net url = Inr
     (case net url of
        Response status (Inr text) \<Rightarrow> if status = 200 then text else []
      | _ \<Rightarrow> [])"
  by (simp add: fetch_html_def fetch_html_try_def split: http_outcome.split sum.split)

text \<open>
  C3, as stated, for the phone-mode fetcher: a response with status 203 (below 400) and
  a body should give that body. \<open>fetch_html\<close> gives the empty string.
\<close>

theorem fetch_html_below_400_counterexample:
  "\<not> ((203::int) < 400 \<longrightarrow>
      fetch_html net_203 ''https://acme.com/contact'' = Inr ''<html>ok</html>'')"
  by (simp add: fetch_html_cases net_203_def)

text \<open>
  C3, amended. Neither fetcher propagates an exception: both always return. The
  calendar-mode \<open>fetch\<close> returns the body text whenever the status is below 400 and the
  body could be read, and no content for a status of 400 or more, a raising request or a
  raising read. The phone-mode \<open>fetch_html\<close> returns the body text only for status 200,
  and the empty string for every other status, a raising request or a raising read.
\<close>

theorem fetch_contract:
  "(\<exists>r. fetch net url = Inr r) \<and> (\<exists>t. fetch_html net url = Inr t)
   \<and> (net url = Response status (Inr text) \<and> status < 400 \<longrightarrow>
        fetch net url = Inr (url, Some text))
   \<and> (net url = Response status body \<and> status \<ge> 400 \<longrightarrow> fetch net url = Inr (url, None))
   \<and> (net url = Response status (Inl e) \<longrightarrow> fetch net url = Inr (url, None))
   \<and> (net url = GetRaises e \<longrightarrow> fetch net url = Inr (url, None))
   \<and> (net url = Response 200 (Inr text) \<longrightarrow> fetch_html net url = Inr text)
   \<and> (net url = Response status body \<and> status \<noteq> 200 \<longrightarrow> fetch_html net url = Inr [])
   \<and> (net url = Response status (Inl e) \<longrightarrow> fetch_html net url = Inr [])
   \<and> (net url = GetRaises e \<longrightarrow> fetch_html net url = Inr [])"
  by (auto simp: fetch_cases fetch_html_cases split: sum.split)

theorem fetch_contract_witness:
  "net_203 ''u'' = Response 203 (Inr ''<html>ok</html>'') \<and> (203::int) < 400 \<and> (203::int) \<noteq> 200
   \<and> fetch net_203 ''u'' = Inr (''u'', Some ''<html>ok</html>'')
   \<and> fetch_html net_203 ''u'' = Inr []
   \<and> fetch_html net_ok ''u'' = Inr ''<html>ok</html>''"
  using fetch_contract [of net_203 "''u''" 203 "''<html>ok</html>''" "Inr ''<html>ok</html>''"]
        fetch_contract [of net_ok "''u''" 200 "''<html>ok</html>''"]
  by (simp add: net_203_def net_ok_def)

section \<open>Properties of the URL normalizer\<close>

lemma rstrip_chars_last: "rstrip_chars P s \<noteq> [] \<Longrightarrow> \<not> P (last (rstrip_chars P s))"
  unfolding rstrip_chars_def
  by (metis hd_dropWhile last_rev rev_is_Nil_conv)

lemma rstrip_chars_id: "s = [] \<or> \<not> P (last s) \<Longrightarrow> rstrip_chars P s = s"
  unfolding rstrip_chars_def
  by (cases "rev s") (auto simp: last_rev rev_swap)

lemma lstrip_chars_id: "s = [] \<or> \<not> P (hd s) \<Longrightarrow> lstrip_chars P s = s"
  unfolding lstrip_chars_def by (cases s) auto

lemma rstrip_chars_hd: "rstrip_chars P s \<noteq> [] \<Longrightarrow> hd (rstrip_chars P s) = hd s"
proof -
  assume ne: "rstrip_chars P s \<noteq> []"
  have "rev s = takeWhile P (rev s) @ dropWhile P (rev s)" by simp
  then have "s = rstrip_chars P s @ rev (takeWhile P (rev s))"
    unfolding rstrip_chars_def by (metis rev_append rev_rev_ident)
  with ne show ?thesis by (metis hd_append2)
qed

lemma strip_hd: "strip s \<noteq> [] \<Longrightarrow> \<not> isspace (hd (strip s))"
proof -
  assume ne: "strip s \<noteq> []"
  then have t: "lstrip_chars isspace s \<noteq> []"
    by (auto simp: strip_def rstrip_chars_def)
  have "hd (strip s) = hd (lstrip_chars isspace s)"
    using ne unfolding strip_def by (rule rstrip_chars_hd)
  with t show ?thesis
    unfolding lstrip_chars_def by (simp add: hd_dropWhile)
qed

lemma strip_last: "strip s \<noteq> [] \<Longrightarrow> \<not> isspace (last (strip s))"
  unfolding strip_def by (rule rstrip_chars_last)

lemma strip_idem: "strip (strip s) = strip s"
proof (cases "strip s = []")
  case True
  have "strip [] = []" by (simp add: strip_def lstrip_chars_def rstrip_chars_def)
  with True show ?thesis by simp
next
  case False
  then have "lstrip_chars isspace (strip s) = strip s"
    by (intro lstrip_chars_id) (simp add: strip_hd)
  moreover from False have "rstrip_chars isspace (strip s) = strip s"
    by (intro rstrip_chars_id) (simp add: strip_last)
  ultimately show ?thesis by (simp add: strip_def)
qed

lemma urlsplit_scheme_no_colon:
  assumes "CHR '':'' \<notin> set u"
  shows "urlsplit_scheme ok u = Inr [] \<or> urlsplit_scheme ok u = Inl ValueError"
proof -
  from assms have "CHR '':'' \<notin> set (filter (\<lambda>c. (of_char c :: nat) \<notin> {9, 10, 13})
                  (dropWhile (\<lambda>c. (of_char c :: nat) \<le> 32) u))"
    by (auto dest: set_dropWhileD)
  then show ?thesis by (simp add: urlsplit_scheme_def Let_def)
qed

lemma startswith_append: "startswith (p @ s) p"
  by (induction p) auto

lemma mailto_scheme: "urlsplit_scheme ok ''mailto:x@y.z'' = Inr ''mailto''"
  by (simp add: urlsplit_scheme_def Let_def scheme_char_def isupper_ascii_def
        islower_ascii_def isdigit_ascii_def lower_def lower_char_def)

lemma unbalanced_bracket_raises: "urlsplit_scheme ok ''//[foo'' = Inl ValueError"
  by (simp add: urlsplit_scheme_def Let_def)

text \<open>
  C8, as stated: every trimmed non-empty input lacking \<open>://\<close> should come back starting
  with \<open>https://\<close>. The normalizer asks \<open>urlparse(raw).scheme\<close> instead: that finds the
  scheme \<open>mailto\<close> in \<open>mailto:x@y.z\<close>, which comes back unchanged, and \<open>urlparse\<close> raises
  \<open>ValueError\<close> on \<open>//[foo\<close>, so that the normalizer returns nothing there.
\<close>

theorem normalize_base_url_counterexample:
  "strip ''mailto:x@y.z'' \<noteq> [] \<and> \<not> py_in ''://'' (strip ''mailto:x@y.z'')
   \<and> normalize_base_url (urlsplit_scheme no_bracketed_host) ''mailto:x@y.z''
       = Inr ''mailto:x@y.z''
   \<and> \<not> startswith ''mailto:x@y.z'' ''https://''
   \<and> strip ''//[foo'' \<noteq> [] \<and> \<not> py_in ''://'' (strip ''//[foo'')
   \<and> normalize_base_url (urlsplit_scheme no_bracketed_host) ''//[foo'' = Inl ValueError"
proof -
  have a: "strip ''mailto:x@y.z'' = ''mailto:x@y.z''" by code_simp
  have b: "strip ''//[foo'' = ''//[foo''" by code_simp
  show ?thesis
    by (simp add: normalize_base_url_def a b mailto_scheme unbalanced_bracket_raises)
qed

text \<open>
  C8, amended. The URL normalizer trims surrounding whitespace (its result depends on the
  trimmed input only) and returns the empty string when the trimmed input is empty.
  Otherwise it calls \<open>urlparse\<close> on the trimmed input: when that raises, the normalizer
  raises the same exception; when it finds no scheme, the normalizer returns \<open>https://\<close>
  followed by the trimmed input; when it finds a scheme, the normalizer returns the
  trimmed input unchanged. In particular, under the rules of \<open>urlsplit\<close>, a trimmed
  non-empty input without a colon either comes back with \<open>https://\<close> in front or makes
  the normalizer raise \<open>ValueError\<close>.
\<close>

theorem normalize_base_url_contract:
  "normalize_base_url scheme_of raw = normalize_base_url scheme_of (strip raw)
   \<and> (strip raw = [] \<longrightarrow> normalize_base_url scheme_of raw = Inr [])
   \<and> (strip raw \<noteq> [] \<and> scheme_of (strip raw) = Inl e \<longrightarrow>
        normalize_base_url scheme_of raw = Inl e)
   \<and> (strip raw \<noteq> [] \<and> scheme_of (strip raw) = Inr [] \<longrightarrow>
        normalize_base_url scheme_of raw = Inr (''https://'' @ strip raw)
        \<and> startswith (''https://'' @ strip raw) ''https://'')
   \<and> (strip raw \<noteq> [] \<and> scheme_of (strip raw) = Inr scheme \<and> scheme \<noteq> [] \<longrightarrow>
        normalize_base_url scheme_of raw = Inr (strip raw))
   \<and> (strip raw \<noteq> [] \<and> CHR '':'' \<notin> set (strip raw) \<longrightarrow>
        normalize_base_url (urlsplit_scheme bracketed_ok) raw = Inr (''https://'' @ strip raw)
        \<or> normalize_base_url (urlsplit_scheme bracketed_ok) raw = Inl ValueError)"
proof -
  have sw: "startswith (''https://'' @ strip raw) ''https://''"
    by (rule startswith_append)
  have nc: "CHR '':'' \<notin> set (strip raw) \<Longrightarrow>
      urlsplit_scheme bracketed_ok (strip raw) = Inr []
      \<or> urlsplit_scheme bracketed_ok (strip raw) = Inl ValueError"
    by (rule urlsplit_scheme_no_colon)
  show ?thesis
    using sw nc
    by (auto simp: normalize_base_url_def Let_def strip_idem simp del: startswith.simps)
qed

theorem normalize_base_url_contract_witness:
  "strip ''  example.com '' \<noteq> []
   \<and> urlsplit_scheme no_bracketed_host (strip ''  example.com '') = Inr []
   \<and> CHR '':'' \<notin> set (strip ''  example.com '')
   \<and> normalize_base_url (urlsplit_scheme no_bracketed_host) ''  example.com ''
       = Inr ''https://example.com''
   \<and> strip ''http://acme.io'' \<noteq> []
   \<and> urlsplit_scheme no_bracketed_host (strip ''http://acme.io'') = Inr ''http''
   \<and> normalize_base_url (urlsplit_scheme no_bracketed_host) ''http://acme.io''
       = Inr ''http://acme.io''
   \<and> strip [CHR 0xA0, CHR '' ''] = []
   \<and> normalize_base_url (urlsplit_scheme no_bracketed_host) [CHR 0xA0, CHR '' ''] = Inr []
   \<and> strip ''//[foo'' \<noteq> []
   \<and> urlsplit_scheme no_bracketed_host (strip ''//[foo'') = Inl ValueError
   \<and> normalize_base_url (urlsplit_scheme no_bracketed_host) ''//[foo'' = Inl ValueError"
proof -
  have a: "strip ''  example.com '' = ''example.com''" by code_simp
  have b: "urlsplit_scheme no_bracketed_host ''example.com'' = Inr []" by code_simp
  have c: "strip ''http://acme.io'' = ''http://acme.io''" by code_simp
  have d: "urlsplit_scheme no_bracketed_host ''http://acme.io'' = Inr ''http''" by code_simp
  have e: "strip [CHR 0xA0, CHR '' ''] = []" by code_simp
  have f: "strip ''//[foo'' = ''//[foo''" by code_simp
  show ?thesis
    using normalize_base_url_contract [of "urlsplit_scheme no_bracketed_host"
            "''  example.com ''", THEN conjunct2]
          normalize_base_url_contract [of "urlsplit_scheme no_bracketed_host"
            "''http://acme.io''" _ "''http''", THEN conjunct2]
          normalize_base_url_contract [of "urlsplit_scheme no_bracketed_host"
            "[CHR 0xA0, CHR '' '']", THEN conjunct2]
          normalize_base_url_contract [of "urlsplit_scheme no_bracketed_host"
            "''//[foo''" ValueError, THEN conjunct2]
    by (simp add: a b c d e f unbalanced_bracket_raises)
qed

section \<open>Properties of the calendar-mode signal extractor\<close>

lemma fold_invariant:
  "P st \<Longrightarrow> (\<And>x s. P s \<Longrightarrow> P (f x s)) \<Longrightarrow> P (fold f xs st)"
  by (induction xs arbitrary: st) auto


lemma ok_update_100: "evidence_ok st \<Longrightarrow> evidence_ok (update 100 u t d st)"
  by (auto simp: evidence_ok_def update_def)

lemma ok_update_max:
  "evidence_ok st \<Longrightarrow> k \<in> {50, 60, 70} \<Longrightarrow>
   evidence_ok (update (max (best_score st) k) u t d st)"
  by (auto simp: evidence_ok_def update_def max_def)

lemma ok_check_hosts: "evidence_ok st \<Longrightarrow> evidence_ok (check_hosts u l st)"
  unfolding check_hosts_def by (rule fold_invariant) (auto simp: ok_update_100)

lemma ok_check_paths: "evidence_ok st \<Longrightarrow> evidence_ok (check_paths u p st)"
  unfolding check_paths_def by (rule fold_invariant) (auto simp: ok_update_max)

lemma ok_check_anchor: "evidence_ok st \<Longrightarrow> evidence_ok (check_anchor u a st)"
  unfolding check_anchor_def by (auto simp: ok_update_max)

lemma ok_analyze_tag: "evidence_ok st \<Longrightarrow> evidence_ok (analyze_tag U page_url t st)"
  unfolding analyze_tag_def
  by (auto simp: Let_def ok_check_hosts ok_check_paths ok_check_anchor split: option.split)

lemma ok_check_text: "evidence_ok st \<Longrightarrow> evidence_ok (check_text u l st)"
  unfolding check_text_def by (rule fold_invariant) (auto simp: ok_update_max)

lemma ok_analyze_page: "evidence_ok (analyze_page U B html page_url)"
proof -
  have "evidence_ok no_evidence" by (simp add: evidence_ok_def no_evidence_def)
  then have "evidence_ok (fold (analyze_tag U page_url) (find_all_tags B html) no_evidence)"
    by (rule fold_invariant) (rule ok_analyze_tag)
  then show ?thesis
    unfolding analyze_page_def Let_def by (rule ok_check_text)
qed

text \<open>
  C9. For every HTML input and page URL, the score \<open>analyze_page\<close> returns is one of 0, 50,
  60, 70 and 100; at score 0 the evidence URL, type and detail are all \<open>None\<close>, and at every
  other score none of them is.
\<close>

theorem analyze_page_score_range:
  "best_score (analyze_page U B html page_url) \<in> {0, 50, 60, 70, 100}
   \<and> (best_score (analyze_page U B html page_url) = 0 \<longrightarrow>
        best_evidence_url (analyze_page U B html page_url) = None
        \<and> best_type (analyze_page U B html page_url) = None
        \<and> best_detail (analyze_page U B html page_url) = None)
   \<and> (best_score (analyze_page U B html page_url) \<noteq> 0 \<longrightarrow>
        best_evidence_url (analyze_page U B html page_url) \<noteq> None
        \<and> best_type (analyze_page U B html page_url) \<noteq> None
        \<and> best_detail (analyze_page U B html page_url) \<noteq> None)"
  using ok_analyze_page [of U B html page_url] unfolding evidence_ok_def by blast

lemma analyze_acme_contact:
  "analyze_page example_urllib example_bs4 acme_contact_html ''https://acme.com/contact'' =
     \<lparr>best_score = 60, best_evidence_url = Some ''https://acme.com/schedule'',
      best_type = Some ''internal_link'',
      best_detail = Some ''matched path keyword: schedule''\<rparr>"
  by code_simp

lemma analyze_empty_page:
  "analyze_page example_urllib example_bs4 ''<p>hello</p>'' ''https://acme.com/'' = no_evidence"
  by code_simp

theorem analyze_page_score_range_witness:
  "best_score (analyze_page example_urllib example_bs4 acme_contact_html
      ''https://acme.com/contact'') = 60
   \<and> best_type (analyze_page example_urllib example_bs4 acme_contact_html
      ''https://acme.com/contact'') \<noteq> None
   \<and> best_score (analyze_page example_urllib example_bs4 ''<p>hello</p>''
      ''https://acme.com/'') = 0
   \<and> best_type (analyze_page example_urllib example_bs4 ''<p>hello</p>''
      ''https://acme.com/'') = None"
  using analyze_page_score_range [of example_urllib example_bs4 acme_contact_html
          "''https://acme.com/contact''"]
        analyze_page_score_range [of example_urllib example_bs4 "''<p>hello</p>''"
          "''https://acme.com/''"]
  by (simp add: analyze_acme_contact analyze_empty_page no_evidence_def)






















section \<open>Properties of the calendar-mode site scanner\<close>

lemma keep_best_append: "keep_best b (ps @ qs) = keep_best (keep_best b ps) qs"
  by (simp add: keep_best_def)

lemma keep_best_Cons:
  "keep_best b (p # ps) = keep_best (if best_score p > best_score b then p else b) ps"
  by (simp add: keep_best_def)






lemma fetch_url: "\<exists>html. fetch net url = Inr (url, html)"
  by (simp add: fetch_cases)

lemma analyzed_Nil: "analyzed U B net [] = []"
  by (simp add: analyzed_def)

lemma analyzed_Cons_falsy:
  "fetch net url = Inr (url', html) \<Longrightarrow> falsy html \<Longrightarrow>
   analyzed U B net (url # urls) = analyzed U B net urls"
  by (simp add: analyzed_def)

lemma analyzed_Cons_page:
  "fetch net url = Inr (url', html) \<Longrightarrow> \<not> falsy html \<Longrightarrow>
   analyzed U B net (url # urls) = analyze_page U B (the html) url' # analyzed U B net urls"
  by (simp add: analyzed_def)

lemma all_less_Suc: "(\<forall>k<Suc n. P k) \<longleftrightarrow> P 0 \<and> (\<forall>j<n. P (Suc j))"
  by (auto simp: less_Suc_eq_0_disj)

lemma scan_paths_run:
  assumes "best_score best < 95"
  shows "\<exists>n\<le>length paths.
     scan_paths U B net base_url paths best log =
       (Inr (keep_best best (analyzed U B net (take n (map (candidate_url U base_url) paths)))),
        log @ take n (map (candidate_url U base_url) paths))
     \<and> (\<forall>k<n. best_score (keep_best best
            (analyzed U B net (take k (map (candidate_url U base_url) paths)))) < 95)
     \<and> (n < length paths \<longrightarrow> best_score (keep_best best
            (analyzed U B net (take n (map (candidate_url U base_url) paths)))) \<ge> 95)"
  using assms
proof (induction paths arbitrary: best log)
  case Nil
  then show ?case by (simp add: analyzed_Nil keep_best_def)
next
  case (Cons path paths)
  let ?url = "candidate_url U base_url path"
  let ?urls = "map (candidate_url U base_url) paths"
  have k0: "best_score (keep_best best (analyzed U B net [])) < 95"
    using Cons.prems by (simp add: analyzed_Nil keep_best_def)
  obtain html where f: "fetch net ?url = Inr (?url, html)"
    using fetch_url by blast
  show ?case
  proof (cases "falsy html")
    case True
    from Cons.IH [OF Cons.prems, of "log @ [?url]"] obtain n where n: "n \<le> length paths"
      and run: "scan_paths U B net base_url paths best (log @ [?url]) =
         (Inr (keep_best best (analyzed U B net (take n ?urls))), (log @ [?url]) @ take n ?urls)"
      and before: "\<forall>k<n. best_score (keep_best best (analyzed U B net (take k ?urls))) < 95"
      and stop: "n < length paths \<longrightarrow>
         best_score (keep_best best (analyzed U B net (take n ?urls))) \<ge> 95"
      by blast
    have an: "\<And>us. analyzed U B net (?url # us) = analyzed U B net us"
      using f True by (simp add: analyzed_Cons_falsy)
    have r: "scan_paths U B net base_url (path # paths) best log =
           scan_paths U B net base_url paths best (log @ [?url])"
      using f True by (simp add: Let_def)
    show ?thesis
      apply (rule exI [of _ "Suc n"])
      using n run stop before k0
      by (simp add: r an all_less_Suc del: scan_paths.simps)
  next
    case False
    let ?page = "analyze_page U B (the html) ?url"
    let ?best' = "if best_score ?page > best_score best then ?page else best"
    have an: "\<And>us. analyzed U B net (?url # us) = ?page # analyzed U B net us"
      using f False by (simp add: analyzed_Cons_page)
    show ?thesis
    proof (cases "best_score ?best' \<ge> 95")
      case True
      have r: "scan_paths U B net base_url (path # paths) best log = (Inr ?best', log @ [?url])"
        using f False True by (simp add: Let_def)
      have k1: "keep_best best (?page # analyzed U B net []) = ?best'"
        by (simp add: analyzed_Nil keep_best_def)
      show ?thesis
        apply (rule exI [of _ "Suc 0"])
        using True k0 k1
        by (simp add: r an del: scan_paths.simps)
    next
      case nstop: False
      then have lt: "best_score ?best' < 95" by simp
      from Cons.IH [OF lt, of "log @ [?url]"] obtain n where n: "n \<le> length paths"
        and run: "scan_paths U B net base_url paths ?best' (log @ [?url]) =
           (Inr (keep_best ?best' (analyzed U B net (take n ?urls))),
            (log @ [?url]) @ take n ?urls)"
        and before: "\<forall>k<n. best_score (keep_best ?best' (analyzed U B net (take k ?urls))) < 95"
        and stop: "n < length paths \<longrightarrow>
           best_score (keep_best ?best' (analyzed U B net (take n ?urls))) \<ge> 95"
        by blast
      have kb: "\<And>ps. keep_best best (?page # ps) = keep_best ?best' ps"
        by (rule keep_best_Cons)
      have r: "scan_paths U B net base_url (path # paths) best log =
           scan_paths U B net base_url paths ?best' (log @ [?url])"
        using f False nstop by (simp add: Let_def)
      show ?thesis
        apply (rule exI [of _ "Suc n"])
        using n run stop before k0
        by (simp add: r an kb all_less_Suc del: scan_paths.simps)
    qed
  qed
qed

lemma normalize_returning: "\<exists>base. normalize_base_url (returning f) raw = Inr base"
  by (simp add: normalize_base_url_def returning_def Let_def)




section \<open>Properties of the phone-mode signal extractor\<close>

lemma match_word_split: "match_word s = Some (w, r) \<Longrightarrow> s = w @ r \<and> capitalized_word w"
  by (cases s) (auto simp: match_word_def capitalized_word_def list_all_iff
                 split: if_splits dest: set_takeWhileD)

lemma match_next_word_split:
  "match_next_word s = Some (w, r) \<Longrightarrow>
   \<exists>c v. w = c # v \<and> isspace c \<and> capitalized_word v \<and> s = w @ r"
  by (cases s) (auto simp: match_next_word_def split: if_splits option.splits
                 dest: match_word_split)

lemma match_name_shape:
  assumes "match_name s = Some name"
  shows "(\<exists>r. s = name @ r)
       \<and> (\<exists>w1 s1 w2. capitalized_word w1 \<and> isspace s1 \<and> capitalized_word w2
            \<and> (name = w1 @ s1 # w2
                \<or> (\<exists>s2 w3. isspace s2 \<and> capitalized_word w3 \<and> name = w1 @ s1 # w2 @ s2 # w3)))"
proof -
  from assms obtain w1 r1 where w1: "match_word s = Some (w1, r1)"
    by (auto simp: match_name_def split: option.splits)
  with assms obtain v2 r2 where v2: "match_next_word r1 = Some (v2, r2)"
    by (auto simp: match_name_def split: option.splits)
  from w1 have s: "s = w1 @ r1" and c1: "capitalized_word w1"
    by (auto dest: match_word_split)
  from v2 obtain s1 w2 where v2eq: "v2 = s1 # w2" and sp1: "isspace s1"
    and c2: "capitalized_word w2" and r1: "r1 = v2 @ r2"
    by (auto dest: match_next_word_split)
  show ?thesis
  proof (cases "match_next_word r2")
    case None
    with assms w1 v2 have "name = w1 @ v2" by (simp add: match_name_def)
    with s r1 v2eq c1 sp1 c2 show ?thesis by auto
  next
    case (Some p)
    obtain v3 r3 where p: "p = (v3, r3)" by (cases p)
    with Some assms w1 v2 have n: "name = w1 @ v2 @ v3" by (simp add: match_name_def)
    from Some p obtain s2 w3 where v3eq: "v3 = s2 # w3" and sp2: "isspace s2"
      and c3: "capitalized_word w3" and r2: "r2 = v3 @ r3"
      by (auto dest: match_next_word_split)
    have "s = name @ r3" using s r1 r2 n by simp
    moreover have "name = w1 @ s1 # w2 @ s2 # w3" using n v2eq v3eq by simp
    ultimately show ?thesis using c1 sp1 c2 sp2 c3 by blast
  qed
qed

lemma search_name_shape:
  "search_name s = Some name \<Longrightarrow>
   py_in name s
   \<and> (\<exists>w1 s1 w2. capitalized_word w1 \<and> isspace s1 \<and> capitalized_word w2
        \<and> (name = w1 @ s1 # w2
            \<or> (\<exists>s2 w3. isspace s2 \<and> capitalized_word w3 \<and> name = w1 @ s1 # w2 @ s2 # w3)))"
proof (induction s)
  case Nil
  then show ?case by simp
next
  case (Cons c cs)
  show ?case
  proof (cases "match_name (c # cs)")
    case None
    with Cons.prems have "search_name cs = Some name" by simp
    from Cons.IH [OF this] show ?thesis by simp
  next
    case (Some n)
    with Cons.prems have n: "n = name" by simp
    from match_name_shape [OF Some] n obtain r where "c # cs = name @ r" by blast
    then have "startswith (c # cs) name" by (metis startswith_append)
    then have "py_in name (c # cs)" by simp
    with match_name_shape [OF Some] n show ?thesis by simp
  qed
qed

lemma capitalized_word_nonempty: "capitalized_word w \<Longrightarrow> w \<noteq> []"
  by (auto simp: capitalized_word_def)

lemma extract_name_Some:
  "extract_name_before_number tb = Some name \<Longrightarrow> search_name (py_last 40 tb) = Some name"
  by (auto simp: extract_name_before_number_def Let_def split: option.splits if_splits)

lemma extract_name_nonempty: "extract_name_before_number tb \<noteq> Some []"
proof
  assume "extract_name_before_number tb = Some []"
  then have "search_name (py_last 40 tb) = Some []" by (rule extract_name_Some)
  from search_name_shape [OF this] show False
    by (auto dest: capitalized_word_nonempty)
qed

lemma strategy_values:
  "category_strategy ''OPS_MAINTENANCE'' = ''Vendor/Maintenance Script''"
  "category_strategy ''DIRECT_MOBILE'' = ''Text First / Direct Call''"
  "category_strategy ''GROWTH_OWNER'' = ''Asset Protection Script''"
  "category_strategy ''NAMED_CONTACT'' = ''Name Drop Call''"
  by (simp_all add: category_strategy_def CATEGORIES_def)

lemma analyze_number_unfold:
  "\<not> blacklisted (full_context tc ms me) \<Longrightarrow>
   analyze_number P n tc ms me =
     (case name_check (extract_name_before_number (text_before tc ms))
             (category_check (full_context tc ms me)) of
        (cat, strat, confidence) \<Rightarrow>
          if cat = None \<or> cat = Some [] then None
          else Some \<lparr>lead_company_name = Some [], lead_website = [],
                     phone_number = format_number P n,
                     contact_name = extract_name_before_number (text_before tc ms),
                     role_or_context = clean_text (py_last 30 (text_before tc ms) @ '' [NUM] ''
                        @ take 30 (text_after tc me)),
                     category = cat, suggested_strategy = strat,
                     confidence_score = confidence\<rparr>)"
  by (simp add: analyze_number_def Let_def)

lemma analyze_number_blacklisted:
  "blacklisted (full_context tc ms me) \<Longrightarrow> analyze_number P n tc ms me = None"
  by (simp add: analyze_number_def Let_def)

text \<open>
  C10. Every \<open>SniperResult\<close> that \<open>analyze_number\<close> returns has a category and a suggested
  strategy that are not \<open>None\<close>, and a confidence score among 80, 85, 90, 95 and 100, so
  never below 80.
\<close>

theorem analyze_number_result_fields:
  assumes "analyze_number P n tc ms me = Some r"
  shows "category r \<noteq> None \<and> suggested_strategy r \<noteq> None
       \<and> confidence_score r \<in> {80, 85, 90, 95, 100} \<and> 80 \<le> confidence_score r"
proof -
  from assms have nb: "\<not> blacklisted (full_context tc ms me)"
    by (auto simp: analyze_number_blacklisted)
  show ?thesis
    using assms unfolding analyze_number_unfold [OF nb]
    by (auto simp: name_check_def category_check_def split: if_splits prod.splits)
qed

lemma maintenance_lead:
  "analyze_number example_phonelib (PhoneNumber 1 5551234567) maintenance_text 21 35 =
     Some \<lparr>lead_company_name = Some [], lead_website = [],
           phone_number = ''(555) 123-4567'', contact_name = None,
           role_or_context = ''for maintenance call [NUM] now'',
           category = Some ''OPS_MAINTENANCE'',
           suggested_strategy = Some ''Vendor/Maintenance Script'',
           confidence_score = 90\<rparr>"
  by code_simp

theorem analyze_number_result_fields_witness:
  "analyze_number example_phonelib (PhoneNumber 1 5551234567) maintenance_text 21 35 =
     Some \<lparr>lead_company_name = Some [], lead_website = [],
           phone_number = ''(555) 123-4567'', contact_name = None,
           role_or_context = ''for maintenance call [NUM] now'',
           category = Some ''OPS_MAINTENANCE'',
           suggested_strategy = Some ''Vendor/Maintenance Script'',
           confidence_score = 90\<rparr>
   \<and> (90::int) \<in> {80, 85, 90, 95, 100}"
  using analyze_number_result_fields [OF maintenance_lead] maintenance_lead by simp

text \<open>
  C5. For every phone-number match whose context survives the blacklist, \<open>analyze_number\<close>
  fixes the category at the first keyword set the context matches, in the order
  operations/maintenance (confidence 90), direct/mobile (95), owner/growth (85); when a
  name is extracted as well the confidence becomes 100, and a result with a category
  keyword and no extracted name has one of the confidences 85, 90 and 95, so less than
  100.
\<close>

theorem analyze_number_category_priority:
  assumes "\<not> blacklisted (full_context tc ms me)"
  shows
   "(let ctx = full_context tc ms me;
         name = extract_name_before_number (text_before tc ms);
         res = analyze_number P n tc ms me
     in (has_keyword ''OPS_MAINTENANCE'' ctx \<longrightarrow>
          (\<exists>r. res = Some r \<and> category r = Some ''OPS_MAINTENANCE''
             \<and> suggested_strategy r = Some ''Vendor/Maintenance Script''
             \<and> contact_name r = name
             \<and> confidence_score r = (if name = None then 90 else 100)))
      \<and> (\<not> has_keyword ''OPS_MAINTENANCE'' ctx \<and> has_keyword ''DIRECT_MOBILE'' ctx \<longrightarrow>
          (\<exists>r. res = Some r \<and> category r = Some ''DIRECT_MOBILE''
             \<and> suggested_strategy r = Some ''Text First / Direct Call''
             \<and> contact_name r = name
             \<and> confidence_score r = (if name = None then 95 else 100)))
      \<and> (\<not> has_keyword ''OPS_MAINTENANCE'' ctx \<and> \<not> has_keyword ''DIRECT_MOBILE'' ctx
           \<and> has_keyword ''GROWTH_OWNER'' ctx \<longrightarrow>
          (\<exists>r. res = Some r \<and> category r = Some ''GROWTH_OWNER''
             \<and> suggested_strategy r = Some ''Asset Protection Script''
             \<and> contact_name r = name
             \<and> confidence_score r = (if name = None then 85 else 100)))
      \<and> (\<forall>r. res = Some r \<and> contact_name r = None
             \<and> (has_keyword ''OPS_MAINTENANCE'' ctx \<or> has_keyword ''DIRECT_MOBILE'' ctx
                  \<or> has_keyword ''GROWTH_OWNER'' ctx) \<longrightarrow>
             confidence_score r \<in> {85, 90, 95} \<and> confidence_score r < 100))"
proof -
  have ne: "extract_name_before_number (text_before tc ms) \<noteq> Some []"
    by (rule extract_name_nonempty)
  show ?thesis
    unfolding Let_def analyze_number_unfold [OF assms]
    using ne
    by (auto simp: name_check_def category_check_def strategy_values)
qed

lemma maintenance_context:
  "\<not> blacklisted (full_context maintenance_text 21 35)"
  "has_keyword ''OPS_MAINTENANCE'' (full_context maintenance_text 21 35)"
  "extract_name_before_number (text_before maintenance_text 21) = None"
  by code_simp+

lemma named_context:
  "\<not> blacklisted (full_context named_text 16 30)"
  "\<not> has_keyword ''OPS_MAINTENANCE'' (full_context named_text 16 30)"
  "\<not> has_keyword ''DIRECT_MOBILE'' (full_context named_text 16 30)"
  "has_keyword ''GROWTH_OWNER'' (full_context named_text 16 30)"
  "extract_name_before_number (text_before named_text 16) = Some ''Call Greg Ku''"
  by code_simp+

theorem analyze_number_category_priority_witness:
  "\<not> blacklisted (full_context maintenance_text 21 35)
   \<and> has_keyword ''OPS_MAINTENANCE'' (full_context maintenance_text 21 35)
   \<and> (\<exists>r. analyze_number example_phonelib (PhoneNumber 1 5551234567) maintenance_text 21 35
            = Some r
          \<and> category r = Some ''OPS_MAINTENANCE'' \<and> contact_name r = None
          \<and> confidence_score r = 90)
   \<and> \<not> blacklisted (full_context named_text 16 30)
   \<and> has_keyword ''GROWTH_OWNER'' (full_context named_text 16 30)
   \<and> (\<exists>r. analyze_number example_phonelib (PhoneNumber 1 5552223333) named_text 16 30
            = Some r
          \<and> category r = Some ''GROWTH_OWNER'' \<and> contact_name r = Some ''Call Greg Ku''
          \<and> confidence_score r = 100)"
  using analyze_number_category_priority [OF maintenance_context(1),
          of example_phonelib "PhoneNumber 1 5551234567"]
        analyze_number_category_priority [OF named_context(1),
          of example_phonelib "PhoneNumber 1 5552223333"]
  by (simp add: Let_def maintenance_context named_context) blast

text \<open>
  C6, as stated: a single capitalized word before the number should be found, and the
  phrase \<open>Contact Us\<close> should be rejected. The pattern needs two words, so \<open>Greg\<close> alone is
  not found; and the extracted phrase is lower-cased before it is compared with the
  capitalized false positives, so \<open>Contact Us\<close> is returned.
\<close>

theorem extract_name_counterexample:
  "extract_name_before_number ''call Greg at '' = None
   \<and> extract_name_before_number ''Contact Us: '' = Some ''Contact Us''"
  by code_simp

lemma search_name_no_upper: "list_all (\<lambda>c. \<not> isupper_ascii c) s \<Longrightarrow> search_name s = None"
  by (induction s) (auto simp: match_name_def match_word_def)

lemma lower_not_upper: "islower_ascii c \<Longrightarrow> \<not> isupper_ascii c"
  by (simp add: islower_ascii_def isupper_ascii_def Let_def)

lemma search_name_single_word:
  assumes "capitalized_word w"
  shows "search_name (drop k w) = None"
proof -
  from assms obtain c cs where w: "w = c # cs" and up: "isupper_ascii c"
    and ne: "cs \<noteq> []" and lows: "list_all islower_ascii cs"
    by (auto simp: capitalized_word_def split: list.splits)
  have tw: "takeWhile islower_ascii cs = cs" and dw: "dropWhile islower_ascii cs = []"
    using lows by (simp_all add: list_all_iff)
  have nu: "list_all (\<lambda>c. \<not> isupper_ascii c) cs"
    using lows by (auto simp: list_all_iff lower_not_upper)
  show ?thesis
  proof (cases k)
    case 0
    have "match_name (c # cs) = None"
      by (simp add: match_name_def match_word_def match_next_word_def tw dw up ne)
    with nu show ?thesis by (simp add: w 0 search_name_no_upper)
  next
    case (Suc j)
    have "list_all (\<lambda>c. \<not> isupper_ascii c) (drop j cs)"
      using nu by (auto simp: list_all_iff dest: in_set_dropD)
    then show ?thesis by (simp add: w Suc search_name_no_upper)
  qed
qed

lemma space_not_lower: "isspace c \<Longrightarrow> \<not> islower_ascii c"
  by (auto simp: isspace_def islower_ascii_def Let_def)

lemma match_word_capitalized:
  assumes "capitalized_word w" and "rest = [] \<or> \<not> islower_ascii (hd rest)"
  shows "match_word (w @ rest) = Some (w, rest)"
proof -
  from assms(1) obtain c cs where w: "w = c # cs" and up: "isupper_ascii c"
    and ne: "cs \<noteq> []" and lows: "list_all islower_ascii cs"
    by (auto simp: capitalized_word_def split: list.splits)
  have tw: "takeWhile islower_ascii (cs @ rest) = cs"
    using lows assms(2) by (cases rest) (auto simp: list_all_iff takeWhile_append2)
  have dw: "dropWhile islower_ascii (cs @ rest) = rest"
    using lows assms(2) by (cases rest) (auto simp: list_all_iff dropWhile_append2)
  show ?thesis
    by (simp add: match_word_def w up ne tw dw)
qed

lemma match_word_prefix:
  assumes "capitalized_word w"
  shows "match_word (w @ rest) \<noteq> None"
proof -
  from assms obtain c cs where w: "w = c # cs" and up: "isupper_ascii c"
    and ne: "cs \<noteq> []" and lows: "list_all islower_ascii cs"
    by (auto simp: capitalized_word_def split: list.splits)
  have "takeWhile islower_ascii (cs @ rest) = cs @ takeWhile islower_ascii rest"
    using lows by (simp add: list_all_iff takeWhile_append2)
  with ne show ?thesis by (simp add: match_word_def w up)
qed

lemma match_name_two_words:
  assumes "capitalized_word w1" and "isspace s1" and "capitalized_word w2"
  shows "match_name (w1 @ s1 # w2 @ rest) \<noteq> None"
proof -
  have "match_word (w1 @ s1 # w2 @ rest) = Some (w1, s1 # w2 @ rest)"
    using assms(1,2) by (intro match_word_capitalized) (simp_all add: space_not_lower)
  moreover have "match_next_word (s1 # w2 @ rest) \<noteq> None"
    using assms(2) match_word_prefix [OF assms(3), of rest]
    by (auto simp: match_next_word_def split: option.splits)
  ultimately show ?thesis
    by (auto simp: match_name_def split: option.splits)
qed

lemma search_name_finds:
  assumes "capitalized_word w1" and "isspace s1" and "capitalized_word w2"
  shows "search_name (pre @ w1 @ s1 # w2 @ rest) \<noteq> None"
proof (induction pre)
  case Nil
  from assms(1) obtain c cs where w1: "w1 = c # cs"
    by (auto simp: capitalized_word_def split: list.splits)
  have "match_name (w1 @ s1 # w2 @ rest) \<noteq> None"
    using assms by (rule match_name_two_words)
  then show ?case by (auto simp: w1 split: option.splits)
next
  case (Cons p pre)
  then show ?case by (auto split: option.splits)
qed

lemma lower_char_not_upper: "\<not> isupper_ascii (lower_char c)"
  by (auto simp: isupper_ascii_def lower_char_def Let_def)

lemma lower_no_false_positive: "lower name \<notin> set FALSE_POSITIVES"
proof
  assume "lower name \<in> set FALSE_POSITIVES"
  then have "\<exists>c\<in>set (lower name). isupper_ascii c"
    by (auto simp: FALSE_POSITIVES_def isupper_ascii_def)
  then show False
    by (auto simp: lower_def lower_char_not_upper)
qed

lemma extract_name_search:
  "extract_name_before_number tb = search_name (py_last 40 tb)"
  by (simp add: extract_name_before_number_def lower_no_false_positive split: option.splits)

lemma match_next_word_capitalized:
  assumes "isspace s" and "capitalized_word w" and "rest = [] \<or> \<not> islower_ascii (hd rest)"
  shows "match_next_word (s # w @ rest) = Some (s # w, rest)"
  using assms(1) match_word_capitalized [OF assms(2,3)]
  by (simp add: match_next_word_def)

lemma match_next_word_none:
  assumes "\<forall>s w r. rest = s # w @ r \<longrightarrow> \<not> (isspace s \<and> capitalized_word w)"
  shows "match_next_word rest = None"
proof (cases "match_next_word rest")
  case None
  then show ?thesis .
next
  case (Some p)
  obtain x r where "p = (x, r)" by (cases p)
  with Some obtain c v where "isspace c" "capitalized_word v" "rest = (c # v) @ r"
    by (auto dest: match_next_word_split)
  with assms show ?thesis by auto
qed

lemma match_name_two:
  assumes "capitalized_word v1" and "isspace sp" and "capitalized_word v2"
    and "rest = [] \<or> \<not> islower_ascii (hd rest)"
    and "\<forall>s w r. rest = s # w @ r \<longrightarrow> \<not> (isspace s \<and> capitalized_word w)"
  shows "match_name (v1 @ sp # v2 @ rest) = Some (v1 @ sp # v2)"
proof -
  have a: "match_word (v1 @ sp # v2 @ rest) = Some (v1, sp # v2 @ rest)"
    using assms(1,2) by (intro match_word_capitalized) (simp_all add: space_not_lower)
  have b: "match_next_word (sp # v2 @ rest) = Some (sp # v2, rest)"
    using assms(2,3,4) by (rule match_next_word_capitalized)
  have c: "match_next_word rest = None"
    using assms(5) by (rule match_next_word_none)
  show ?thesis by (simp add: match_name_def a b c)
qed

lemma match_name_three:
  assumes "capitalized_word v1" and "isspace sp" and "capitalized_word v2"
    and "isspace s2" and "capitalized_word v3" and "r3 = [] \<or> \<not> islower_ascii (hd r3)"
  shows "match_name (v1 @ sp # v2 @ s2 # v3 @ r3) = Some (v1 @ sp # v2 @ s2 # v3)"
proof -
  have a: "match_word (v1 @ sp # v2 @ s2 # v3 @ r3) = Some (v1, sp # v2 @ s2 # v3 @ r3)"
    using assms(1,2) by (intro match_word_capitalized) (simp_all add: space_not_lower)
  have b: "match_next_word (sp # v2 @ s2 # v3 @ r3) = Some (sp # v2, s2 # v3 @ r3)"
    using assms(2,3,4) by (intro match_next_word_capitalized) (simp_all add: space_not_lower)
  have c: "match_next_word (s2 # v3 @ r3) = Some (s2 # v3, r3)"
    using assms(4,5,6) by (rule match_next_word_capitalized)
  show ?thesis by (simp add: match_name_def a b c)
qed

lemma search_name_skip:
  assumes "\<forall>j<length pre. match_name (drop j (pre @ m)) = None"
  shows "search_name (pre @ m) = search_name m"
  using assms
proof (induction pre)
  case Nil
  then show ?case by simp
next
  case (Cons p pre)
  from Cons.prems have "match_name (drop 0 ((p # pre) @ m)) = None" by blast
  then have h: "match_name (p # pre @ m) = None" by simp
  have "\<forall>j<length pre. match_name (drop j (pre @ m)) = None"
  proof (intro allI impI)
    fix j assume "j < length pre"
    then have "Suc j < length (p # pre)" by simp
    with Cons.prems have "match_name (drop (Suc j) ((p # pre) @ m)) = None" by blast
    then show "match_name (drop j (pre @ m)) = None" by simp
  qed
  from Cons.IH [OF this] h show ?case by simp
qed

lemma search_name_here: "match_name m = Some name \<Longrightarrow> search_name m = Some name"
  by (cases m) (auto simp: match_name_def match_word_def)

lemma match_name_none_before:
  assumes "\<forall>p w1 s w2 r. seg = p @ w1 @ s # w2 @ r
      \<and> capitalized_word w1 \<and> isspace s \<and> capitalized_word w2 \<longrightarrow> n \<le> length p"
    and "j < n"
  shows "match_name (drop j seg) = None"
proof (cases "match_name (drop j seg)")
  case None
  then show ?thesis .
next
  case (Some name)
  from match_name_shape [OF Some] obtain r w1 s1 w2 t where
    d: "drop j seg = name @ r" and c: "capitalized_word w1" "isspace s1"
      "capitalized_word w2" and n: "name = w1 @ s1 # w2 @ t"
    by auto
  have "seg = take j seg @ drop j seg" by (rule append_take_drop_id [symmetric])
  then have "seg = take j seg @ w1 @ s1 # w2 @ (t @ r)"
    by (simp only: d n append_assoc append_Cons)
  with assms(1) c have "n \<le> length (take j seg)" by blast
  with assms(2) show ?thesis by simp
qed

lemma search_name_leftmost:
  assumes "\<forall>p w1 s w2 r. pre @ m = p @ w1 @ s # w2 @ r
      \<and> capitalized_word w1 \<and> isspace s \<and> capitalized_word w2 \<longrightarrow> length pre \<le> length p"
    and "match_name m = Some name"
  shows "search_name (pre @ m) = Some name"
proof -
  have "\<forall>j<length pre. match_name (drop j (pre @ m)) = None"
  proof (intro allI impI)
    fix j assume "j < length pre"
    with assms(1) show "match_name (drop j (pre @ m)) = None"
      by (rule match_name_none_before)
  qed
  then have "search_name (pre @ m) = search_name m" by (rule search_name_skip)
  with assms(2) show ?thesis by (simp add: search_name_here)
qed

text \<open>
  C6, amended. The name heuristic depends on the last 40 characters before the number
  only, and looks there for two or three consecutive capitalized words (an upper-case
  letter followed by lower-case letters), each two separated by one whitespace character.
  Whatever name it returns is such a phrase and occurs in those 40 characters. When the
  leftmost place at which two such words stand begins a third one as well, the three words
  are returned; when it does not, the two words are returned unless they are one of the six
  listed false positives. So whenever those 40 characters contain two such words, a name is
  returned unless one of the listed false positives occurs in them. A text that is one
  capitalized word yields no name.
\<close>

theorem extract_name_two_or_three_words:
  "extract_name_before_number tb = extract_name_before_number (py_last 40 tb)
   \<and> (extract_name_before_number tb = Some name \<longrightarrow>
        py_in name (py_last 40 tb)
        \<and> (\<exists>w1 s1 w2. capitalized_word w1 \<and> isspace s1 \<and> capitalized_word w2
             \<and> (name = w1 @ s1 # w2
                 \<or> (\<exists>s2 w3. isspace s2 \<and> capitalized_word w3
                       \<and> name = w1 @ s1 # w2 @ s2 # w3))))
   \<and> (py_last 40 tb = pre @ wa @ sa # wb @ rest
        \<and> capitalized_word wa \<and> isspace sa \<and> capitalized_word wb
        \<and> (rest = [] \<or> \<not> islower_ascii (hd rest))
        \<and> (\<forall>p w1 s w2 r. py_last 40 tb = p @ w1 @ s # w2 @ r
              \<and> capitalized_word w1 \<and> isspace s \<and> capitalized_word w2
              \<longrightarrow> length pre \<le> length p) \<longrightarrow>
        (rest = sb # wc @ tail \<and> isspace sb \<and> capitalized_word wc
           \<and> (tail = [] \<or> \<not> islower_ascii (hd tail)) \<longrightarrow>
           extract_name_before_number tb = Some (wa @ sa # wb @ sb # wc))
        \<and> ((\<forall>s w r. rest = s # w @ r \<longrightarrow> \<not> (isspace s \<and> capitalized_word w))
           \<and> wa @ sa # wb \<notin> set FALSE_POSITIVES \<longrightarrow>
           extract_name_before_number tb = Some (wa @ sa # wb)))
   \<and> (py_last 40 tb = pre @ wa @ sa # wb @ rest
        \<and> capitalized_word wa \<and> isspace sa \<and> capitalized_word wb \<longrightarrow>
        (\<exists>found. extract_name_before_number tb = Some found)
        \<or> (\<exists>fp\<in>set FALSE_POSITIVES. py_in fp (py_last 40 tb)))
   \<and> (capitalized_word tb \<longrightarrow> extract_name_before_number tb = None)"
proof (intro conjI impI)
  have "py_last 40 (py_last 40 tb) = py_last 40 tb"
    by (simp add: py_last_def)
  then show "extract_name_before_number tb = extract_name_before_number (py_last 40 tb)"
    by (simp add: extract_name_before_number_def)
next
  assume "extract_name_before_number tb = Some name"
  then have sn: "search_name (py_last 40 tb) = Some name" by (rule extract_name_Some)
  show "py_in name (py_last 40 tb)"
    and "\<exists>w1 s1 w2. capitalized_word w1 \<and> isspace s1 \<and> capitalized_word w2
             \<and> (name = w1 @ s1 # w2
                 \<or> (\<exists>s2 w3. isspace s2 \<and> capitalized_word w3
                       \<and> name = w1 @ s1 # w2 @ s2 # w3))"
    using search_name_shape [OF sn] by blast+
next
  assume h: "py_last 40 tb = pre @ wa @ sa # wb @ rest
        \<and> capitalized_word wa \<and> isspace sa \<and> capitalized_word wb
        \<and> (rest = [] \<or> \<not> islower_ascii (hd rest))
        \<and> (\<forall>p w1 s w2 r. py_last 40 tb = p @ w1 @ s # w2 @ r
              \<and> capitalized_word w1 \<and> isspace s \<and> capitalized_word w2
              \<longrightarrow> length pre \<le> length p)"
    and t: "rest = sb # wc @ tail \<and> isspace sb \<and> capitalized_word wc
           \<and> (tail = [] \<or> \<not> islower_ascii (hd tail))"
  from h have seg: "py_last 40 tb = pre @ (wa @ sa # wb @ sb # wc @ tail)"
    using t by simp
  have "match_name (wa @ sa # wb @ sb # wc @ tail) = Some (wa @ sa # wb @ sb # wc)"
    using h t by (intro match_name_three) simp_all
  moreover from h have "\<forall>p w1 s w2 r. pre @ (wa @ sa # wb @ sb # wc @ tail) = p @ w1 @ s # w2 @ r
      \<and> capitalized_word w1 \<and> isspace s \<and> capitalized_word w2 \<longrightarrow> length pre \<le> length p"
    unfolding seg by blast
  ultimately have "search_name (pre @ (wa @ sa # wb @ sb # wc @ tail))
      = Some (wa @ sa # wb @ sb # wc)"
    by (intro search_name_leftmost)
  then show "extract_name_before_number tb = Some (wa @ sa # wb @ sb # wc)"
    by (simp add: extract_name_search seg)
next
  assume h: "py_last 40 tb = pre @ wa @ sa # wb @ rest
        \<and> capitalized_word wa \<and> isspace sa \<and> capitalized_word wb
        \<and> (rest = [] \<or> \<not> islower_ascii (hd rest))
        \<and> (\<forall>p w1 s w2 r. py_last 40 tb = p @ w1 @ s # w2 @ r
              \<and> capitalized_word w1 \<and> isspace s \<and> capitalized_word w2
              \<longrightarrow> length pre \<le> length p)"
    and t: "(\<forall>s w r. rest = s # w @ r \<longrightarrow> \<not> (isspace s \<and> capitalized_word w))
           \<and> wa @ sa # wb \<notin> set FALSE_POSITIVES"
  from h have seg: "py_last 40 tb = pre @ (wa @ sa # wb @ rest)" by simp
  have "match_name (wa @ sa # wb @ rest) = Some (wa @ sa # wb)"
    using h t by (intro match_name_two) simp_all
  moreover from h have "\<forall>p w1 s w2 r. pre @ (wa @ sa # wb @ rest) = p @ w1 @ s # w2 @ r
      \<and> capitalized_word w1 \<and> isspace s \<and> capitalized_word w2 \<longrightarrow> length pre \<le> length p"
    unfolding seg by blast
  ultimately have "search_name (pre @ (wa @ sa # wb @ rest)) = Some (wa @ sa # wb)"
    by (intro search_name_leftmost)
  then show "extract_name_before_number tb = Some (wa @ sa # wb)"
    by (simp add: extract_name_search seg)
next
  assume "py_last 40 tb = pre @ wa @ sa # wb @ rest
        \<and> capitalized_word wa \<and> isspace sa \<and> capitalized_word wb"
  then have seg: "py_last 40 tb = pre @ wa @ sa # wb @ rest"
    and words: "capitalized_word wa" "isspace sa" "capitalized_word wb"
    by simp_all
  have "search_name (pre @ wa @ sa # wb @ rest) \<noteq> None"
    using words by (rule search_name_finds)
  then have "\<exists>found. extract_name_before_number tb = Some found"
    by (simp add: extract_name_search seg)
  then show "(\<exists>found. extract_name_before_number tb = Some found)
        \<or> (\<exists>fp\<in>set FALSE_POSITIVES. py_in fp (py_last 40 tb))" ..
next
  assume "capitalized_word tb"
  then have "search_name (py_last 40 tb) = None"
    unfolding py_last_def by (rule search_name_single_word)
  then show "extract_name_before_number tb = None"
    by (simp add: extract_name_before_number_def)
qed

lemma greg_ku_leftmost:
  assumes "''call Greg Ku at '' = p @ w1 @ s # w2 @ r" and "capitalized_word w1"
  shows "length ''call '' \<le> length p"
proof (rule ccontr)
  assume "\<not> length ''call '' \<le> length p"
  then have l: "length p < 5" by simp
  from assms(2) obtain c cs where w1: "w1 = c # cs" and up: "isupper_ascii c"
    by (auto simp: capitalized_word_def split: list.splits)
  have "(p @ w1 @ s # w2 @ r) ! length p = c"
    by (simp add: w1)
  then have c: "''call Greg Ku at '' ! length p = c"
    by (simp only: assms(1) [symmetric])
  have "\<forall>i<5. \<not> isupper_ascii (''call Greg Ku at '' ! i)"
    by (simp add: eval_nat_numeral all_less_Suc isupper_ascii_def)
  with l c up show False by blast
qed

lemma greg_ku_no_third_word:
  "\<forall>s w r. '' at '' = s # w @ r \<longrightarrow> \<not> (isspace s \<and> capitalized_word w)"
  by (auto simp: capitalized_word_def Cons_eq_append_conv isupper_ascii_def
        split: list.splits)


lemma mary_ann_smith_third_word:
  "'' Smith: '' = CHR '' '' # ''Smith'' @ '': ''"
  by simp

lemma greg_ku_no_break_space:
  "extract_name_before_number (''call Greg'' @ [CHR 0xA0] @ ''Ku at '')
     = Some (''Greg'' @ [CHR 0xA0] @ ''Ku'')"
  by code_simp

theorem extract_name_two_or_three_words_witness:
  "py_last 40 ''call Greg Ku at '' = ''call '' @ ''Greg'' @ CHR '' '' # ''Ku'' @ '' at ''
   \<and> capitalized_word ''Greg'' \<and> isspace CHR '' '' \<and> capitalized_word ''Ku''
   \<and> ''Greg Ku'' \<notin> set FALSE_POSITIVES
   \<and> extract_name_before_number ''call Greg Ku at '' = Some ''Greg Ku''
   \<and> py_in ''Greg Ku'' (py_last 40 ''call Greg Ku at '')
   \<and> py_last 40 ''Mary Ann Smith: '' = ''Mary'' @ CHR '' '' # ''Ann'' @ '' Smith: ''
   \<and> capitalized_word ''Mary'' \<and> capitalized_word ''Ann'' \<and> capitalized_word ''Smith''
   \<and> extract_name_before_number ''Mary Ann Smith: '' = Some ''Mary Ann Smith''
   \<and> extract_name_before_number ''Greg'' = None"
proof -
  have tb: "py_last 40 ''call Greg Ku at '' = ''call Greg Ku at ''" by code_simp
  have seg: "py_last 40 ''call Greg Ku at '' = ''call '' @ ''Greg'' @ CHR '' '' # ''Ku'' @ '' at ''"
    by code_simp
  have seg': "py_last 40 ''Mary Ann Smith: '' = [] @ ''Mary'' @ CHR '' '' # ''Ann'' @ '' Smith: ''"
    by code_simp
  have caps: "capitalized_word ''Greg''" "isspace CHR '' ''" "capitalized_word ''Ku''"
    "capitalized_word ''Mary''" "capitalized_word ''Ann''" "capitalized_word ''Smith''"
    by code_simp+
  have ends: "'' at '' = [] \<or> \<not> islower_ascii (hd '' at '')"
    "'' Smith: '' = [] \<or> \<not> islower_ascii (hd '' Smith: '')"
    "'': '' = [] \<or> \<not> islower_ascii (hd '': '')"
    by code_simp+
  have nfp: "''Greg'' @ CHR '' '' # ''Ku'' \<notin> set FALSE_POSITIVES" by code_simp
  have leftmost: "\<forall>p w1 s w2 r. py_last 40 ''call Greg Ku at '' = p @ w1 @ s # w2 @ r
              \<and> capitalized_word w1 \<and> isspace s \<and> capitalized_word w2
              \<longrightarrow> length ''call '' \<le> length p"
    unfolding tb by (blast intro: greg_ku_leftmost)
  have leftmost': "\<forall>p w1 s w2 r. py_last 40 ''Mary Ann Smith: '' = p @ w1 @ s # w2 @ r
              \<and> capitalized_word w1 \<and> isspace s \<and> capitalized_word w2
              \<longrightarrow> length ([] :: string) \<le> length p"
    by simp
  have two: "extract_name_before_number ''call Greg Ku at ''
      = Some (''Greg'' @ CHR '' '' # ''Ku'')"
    using extract_name_two_or_three_words [where tb = "''call Greg Ku at ''"
        and pre = "''call ''" and wa = "''Greg''" and sa = "CHR '' ''" and wb = "''Ku''"
        and rest = "'' at ''"]
      seg caps ends leftmost greg_ku_no_third_word nfp
    by blast
  have found: "py_in (''Greg'' @ CHR '' '' # ''Ku'') (py_last 40 ''call Greg Ku at '')"
    using extract_name_two_or_three_words [where tb = "''call Greg Ku at ''"
        and name = "''Greg'' @ CHR '' '' # ''Ku''"] two
    by blast
  have three: "extract_name_before_number ''Mary Ann Smith: ''
      = Some (''Mary'' @ CHR '' '' # ''Ann'' @ CHR '' '' # ''Smith'')"
    using extract_name_two_or_three_words [where tb = "''Mary Ann Smith: ''"
        and pre = "[]" and wa = "''Mary''" and sa = "CHR '' ''" and wb = "''Ann''"
        and rest = "'' Smith: ''" and sb = "CHR '' ''" and wc = "''Smith''"
        and tail = "'': ''"]
      seg' caps ends leftmost' mary_ann_smith_third_word
    by blast
  have one: "extract_name_before_number ''Greg'' = None"
    using extract_name_two_or_three_words [where tb = "''Greg''"] caps(1)
    by blast
  show ?thesis
    using seg seg' caps nfp two found three one by simp
qed

section \<open>Properties of the phone-mode site scanner\<close>

text \<open>
  C7. When the phone-number recognizer yields more than 15 matches on the text of a page,
  the page is skipped: the leads found so far and the numbers seen so far are unchanged,
  and the company's scan goes on as if the page were not there. A page with 16 matches is
  the smallest case.
\<close>

theorem density_guard:
  assumes "fetch_html net url = Inr html"
    and "15 < length (PhoneNumberMatcher P (visible_text P html))"
  shows "process_page P net name base_url url st = Inr st
       \<and> process_pages P net name base_url (url # urls) st
           = process_pages P net name base_url urls st"
proof -
  have "process_page P net name base_url url st = Inr st"
    using assms by (simp add: process_page_def Let_def)
  then show ?thesis by simp
qed

lemma directory_matches:
  "length (PhoneNumberMatcher example_phonelib (visible_text example_phonelib directory_text))
     = 16"
proof -
  have "directory_text \<noteq> maintenance_text" "directory_text \<noteq> named_text"
    by (simp_all add: directory_text_def maintenance_text_def named_text_def)
  then show ?thesis by (simp add: example_phonelib_def example_matcher_def)
qed

theorem density_guard_witness:
  "fetch_html directory_net ''https://acme.com/contact'' = Inr directory_text
   \<and> length (PhoneNumberMatcher example_phonelib (visible_text example_phonelib directory_text))
       = 16
   \<and> process_page example_phonelib directory_net (Some ''Acme'') ''https://acme.com''
        ''https://acme.com/contact'' ([], {}) = Inr ([], {})"
proof -
  have a: "fetch_html directory_net ''https://acme.com/contact'' = Inr directory_text"
    by (simp add: fetch_html_cases directory_net_def)
  have b: "15 < length (PhoneNumberMatcher example_phonelib
      (visible_text example_phonelib directory_text))"
    by (simp add: directory_matches)
  show ?thesis
    using a directory_matches
      density_guard [OF a b, of "Some ''Acme''" "''https://acme.com''" "([], {})" "[]"]
    by simp
qed

section \<open>Properties of the scan coordinators\<close>

lemma scan_site_None:
  "dict_get company ''website'' [] = None \<Longrightarrow>
   scan_site U B net company log = (Inl AttributeError, log)"
  by (simp add: scan_site_def)

lemma scan_site_returns:
  assumes "dict_get company ''website'' [] = Some raw"
  shows "\<exists>r. fst (scan_site U B net company log) = Inr r"
proof -
  obtain base where nb: "normalize_base_url (returning (urlparse_scheme U)) raw = Inr base"
    using normalize_returning by blast
  show ?thesis
  proof (cases "base = []")
    case True
    with assms nb show ?thesis by (simp add: scan_site_def)
  next
    case False
    have "best_score no_evidence < 95" by (simp add: no_evidence_def)
    from scan_paths_run [OF this, of CANDIDATE_PATHS U B net base log]
    obtain best log' where
      "scan_paths U B net base CANDIDATE_PATHS no_evidence log = (Inr best, log')" by blast
    with assms nb False show ?thesis by (simp add: scan_site_def Let_def)
  qed
qed

lemma process_company_None:
  "dict_get company ''website'' [] = None \<Longrightarrow>
   process_company U P net iter company = Inl AttributeError"
  by (simp add: process_company_def)

lemma process_page_returns: "\<exists>st'. process_page P net name base_url url st = Inr st'"
  by (simp add: process_page_def fetch_html_cases Let_def)

lemma process_pages_returns: "\<exists>st'. process_pages P net name base_url urls st = Inr st'"
proof (induction urls arbitrary: st)
  case Nil
  then show ?case by simp
next
  case (Cons url urls)
  obtain st1 where "process_page P net name base_url url st = Inr st1"
    using process_page_returns by blast
  with Cons.IH [of st1] show ?case by simp
qed

lemma process_company_returns:
  assumes "dict_get company ''website'' [] = Some raw"
  shows "\<exists>ls. process_company U P net iter company = Inr ls"
proof (cases "strip raw = []")
  case True
  with assms show ?thesis by (simp add: process_company_def)
next
  case False
  let ?base = "if startswith (strip raw) ''http'' then strip raw else ''https://'' @ strip raw"
  obtain st' where "process_pages P net (dict_get company ''company_name'' ''Unknown'') ?base
      (iter (?base # map (urljoin U (urlparse_scheme U ?base @ ''://'' @ urlparse_netloc U ?base))
         PAGES_TO_SCAN)) ([], {}) = Inr st'"
    using process_pages_returns by blast
  with assms False show ?thesis
    by (cases st') (simp add: process_company_def Let_def)
qed

lemma await_results_ok:
  "\<forall>x\<in>set outcomes. \<exists>r. x = Inr r \<Longrightarrow>
   \<exists>rs. await_results outcomes acc = Inr (acc @ rs) \<and> length rs = length outcomes"
proof (induction outcomes arbitrary: acc)
  case Nil
  then show ?case by simp
next
  case (Cons x outcomes)
  from Cons.prems obtain r where x: "x = Inr r" by auto
  from Cons.prems have "\<forall>x\<in>set outcomes. \<exists>r. x = Inr r" by simp
  from Cons.IH [OF this, of "acc @ [r]"] obtain rs where
    "await_results outcomes (acc @ [r]) = Inr ((acc @ [r]) @ rs)" "length rs = length outcomes"
    by blast
  then show ?case by (intro exI [of _ "r # rs"]) (simp add: x)
qed

lemma await_results_raises:
  "\<exists>x\<in>set outcomes. \<exists>e. x = Inl e \<Longrightarrow> \<exists>e. await_results outcomes acc = Inl e"
proof (induction outcomes arbitrary: acc)
  case Nil
  then show ?case by simp
next
  case (Cons x outcomes)
  show ?case
  proof (cases x)
    case (Inl e)
    then show ?thesis by simp
  next
    case (Inr r)
    with Cons.prems have "\<exists>x\<in>set outcomes. \<exists>e. x = Inl e" by auto
    from Cons.IH [OF this, of "acc @ [r]"] Inr show ?thesis by simp
  qed
qed

lemma await_counts_ok:
  "\<forall>x\<in>set outcomes. \<exists>r. x = Inr r \<Longrightarrow>
   \<exists>csv' leads'. await_counts outcomes (csv, leads, completed)
      = (Inr (), csv', leads', completed + length outcomes)"
proof (induction outcomes arbitrary: csv leads completed)
  case Nil
  then show ?case by simp
next
  case (Cons x outcomes)
  from Cons.prems obtain r where x: "x = Inr r" by auto
  from Cons.prems have "\<forall>x\<in>set outcomes. \<exists>r. x = Inr r" by simp
  from Cons.IH [OF this, of "csv @ r" "leads + length r" "completed + 1"]
  show ?case by (simp add: x)
qed

lemma await_counts_raises:
  "\<exists>x\<in>set outcomes. \<exists>e. x = Inl e \<Longrightarrow>
   \<exists>e csv' leads' completed'. await_counts outcomes (csv, leads, completed)
      = (Inl e, csv', leads', completed') \<and> completed' < completed + length outcomes"
proof (induction outcomes arbitrary: csv leads completed)
  case Nil
  then show ?case by simp
next
  case (Cons x outcomes)
  show ?case
  proof (cases x)
    case (Inl e)
    then show ?thesis by simp
  next
    case (Inr r)
    with Cons.prems have "\<exists>x\<in>set outcomes. \<exists>e. x = Inl e" by auto
    from Cons.IH [OF this, of "csv @ r" "leads + length r" "completed + 1"]
    obtain e csv' leads' completed' where
      "await_counts outcomes (csv @ r, leads + length r, completed + 1)
         = (Inl e, csv', leads', completed')"
      "completed' < completed + 1 + length outcomes" by blast
    with Inr show ?thesis by simp
  qed
qed

lemma completion_set:
  assumes "set order = {..<length companies}"
  shows "set (completion companies order) = set companies"
proof -
  have "set (completion companies order) = (\<lambda>i. companies ! i) ` {..<length companies}"
    by (simp add: completion_def assms)
  also have "\<dots> = set companies"
    by (auto simp: set_conv_nth)
  finally show ?thesis .
qed

lemma completion_length:
  assumes "distinct order" and "set order = {..<length companies}"
  shows "length (completion companies order) = length companies"
proof -
  have "length order = card (set order)"
    using assms(1) by (simp add: distinct_card)
  then show ?thesis by (simp add: completion_def assms(2))
qed

text \<open>
  C2, as stated: with one company whose scan raises, the coordinator should still finish
  with one completed result per company. A row too short to have a website makes the scan
  raise \<open>AttributeError\<close>, and both coordinators stop with that exception: calendar mode
  returns no results, phone mode has completed no company.
\<close>

theorem coordinator_counterexample:
  "main_calendar example_urllib example_bs4 acme_net [short_row, acme] [0, 1]
     = Inl AttributeError
   \<and> main_phone example_urllib example_phonelib acme_net remdups [short_row, acme] [0, 1]
     = (Inl AttributeError, [], 0, 0)"
proof -
  have w: "dict_get short_row ''website'' [] = None"
    by (simp add: dict_get_def short_row_def)
  have c: "completion [short_row, acme] [0, 1] = [short_row, acme]"
    by (simp add: completion_def)
  show ?thesis
    unfolding main_calendar_def main_phone_def c
    by (simp add: scan_site_None [OF w] process_company_None [OF w])
qed

text \<open>
  C2, amended. For every list of submitted companies and every order of completion of
  their tasks, in both modes: when no company's scan raises, the coordinator produces
  exactly one completed result per submitted company; when some company's scan raises, the
  coordinator does not catch the exception: it stops with an exception, calendar mode
  without any result and phone mode having completed fewer companies than were submitted.
\<close>

theorem coordinator_results:
  assumes "distinct order" and "set order = {..<length companies}"
  shows
   "((\<forall>c\<in>set companies. \<exists>r. fst (scan_site U B net c []) = Inr r) \<longrightarrow>
       (\<exists>results. main_calendar U B net companies order = Inr results
          \<and> length results = length companies))
    \<and> ((\<exists>c\<in>set companies. \<exists>e. fst (scan_site U B net c []) = Inl e) \<longrightarrow>
       (\<exists>e. main_calendar U B net companies order = Inl e))
    \<and> ((\<forall>c\<in>set companies. \<exists>ls. process_company U P net iter c = Inr ls) \<longrightarrow>
       (\<exists>csv total. main_phone U P net iter companies order
          = (Inr (), csv, total, length companies)))
    \<and> ((\<exists>c\<in>set companies. \<exists>e. process_company U P net iter c = Inl e) \<longrightarrow>
       (\<exists>e csv total completed. main_phone U P net iter companies order
          = (Inl e, csv, total, completed) \<and> completed < length companies))"
proof -
  let ?cs = "completion companies order"
  have s: "set ?cs = set companies" using assms(2) by (rule completion_set)
  have l: "length ?cs = length companies" using assms by (rule completion_length)
  let ?scans = "map (\<lambda>c. fst (scan_site U B net c [])) ?cs"
  let ?procs = "map (process_company U P net iter) ?cs"
  have a: "(\<forall>c\<in>set companies. \<exists>r. fst (scan_site U B net c []) = Inr r) \<longrightarrow>
       (\<exists>results. main_calendar U B net companies order = Inr results
          \<and> length results = length companies)"
  proof
    assume "\<forall>c\<in>set companies. \<exists>r. fst (scan_site U B net c []) = Inr r"
    then have "\<forall>x\<in>set ?scans. \<exists>r. x = Inr r" using s by auto
    from await_results_ok [OF this, of "[]"] l
    show "\<exists>results. main_calendar U B net companies order = Inr results
          \<and> length results = length companies"
      by (auto simp: main_calendar_def)
  qed
  have b: "(\<exists>c\<in>set companies. \<exists>e. fst (scan_site U B net c []) = Inl e) \<longrightarrow>
       (\<exists>e. main_calendar U B net companies order = Inl e)"
  proof
    assume "\<exists>c\<in>set companies. \<exists>e. fst (scan_site U B net c []) = Inl e"
    then have "\<exists>x\<in>set ?scans. \<exists>e. x = Inl e" using s by auto
    from await_results_raises [OF this, of "[]"]
    show "\<exists>e. main_calendar U B net companies order = Inl e"
      by (simp add: main_calendar_def)
  qed
  have c: "(\<forall>c\<in>set companies. \<exists>ls. process_company U P net iter c = Inr ls) \<longrightarrow>
       (\<exists>csv total. main_phone U P net iter companies order
          = (Inr (), csv, total, length companies))"
  proof
    assume "\<forall>c\<in>set companies. \<exists>ls. process_company U P net iter c = Inr ls"
    then have "\<forall>x\<in>set ?procs. \<exists>r. x = Inr r" using s by auto
    from await_counts_ok [OF this, of "[]" 0 0] l
    show "\<exists>csv total. main_phone U P net iter companies order
          = (Inr (), csv, total, length companies)"
      by (simp add: main_phone_def)
  qed
  have d: "(\<exists>c\<in>set companies. \<exists>e. process_company U P net iter c = Inl e) \<longrightarrow>
       (\<exists>e csv total completed. main_phone U P net iter companies order
          = (Inl e, csv, total, completed) \<and> completed < length companies)"
  proof
    assume "\<exists>c\<in>set companies. \<exists>e. process_company U P net iter c = Inl e"
    then have "\<exists>x\<in>set ?procs. \<exists>e. x = Inl e" using s by auto
    from await_counts_raises [OF this, of "[]" 0 0] l
    show "\<exists>e csv total completed. main_phone U P net iter companies order
          = (Inl e, csv, total, completed) \<and> completed < length companies"
      by (simp add: main_phone_def)
  qed
  from a b c d show ?thesis by blast
qed

theorem coordinator_results_witness:
  "distinct [0::nat] \<and> set [0::nat] = {..<length [acme]}
   \<and> (\<exists>r. fst (scan_site example_urllib example_bs4 acme_net acme []) = Inr r)
   \<and> (\<exists>results. main_calendar example_urllib example_bs4 acme_net [acme] [0] = Inr results
         \<and> length results = 1)
   \<and> (\<exists>ls. process_company example_urllib example_phonelib acme_net remdups acme = Inr ls)
   \<and> (\<exists>csv total. main_phone example_urllib example_phonelib acme_net remdups [acme] [0]
         = (Inr (), csv, total, 1))
   \<and> (\<exists>e. fst (scan_site example_urllib example_bs4 acme_net short_row []) = Inl e)
   \<and> (\<exists>e. main_calendar example_urllib example_bs4 acme_net [short_row] [0] = Inl e)
   \<and> (\<exists>e. process_company example_urllib example_phonelib acme_net remdups short_row = Inl e)
   \<and> (\<exists>e csv total completed.
         main_phone example_urllib example_phonelib acme_net remdups [short_row] [0]
           = (Inl e, csv, total, completed) \<and> completed < 1)"
proof -
  have p: "distinct [0::nat]" "set [0::nat] = {..<length [acme]}"
    "set [0::nat] = {..<length [short_row]}" by auto
  have w: "dict_get acme ''website'' [] = Some ''acme.com''"
    by (simp add: dict_get_def acme_def)
  have n: "dict_get short_row ''website'' [] = None"
    by (simp add: dict_get_def short_row_def)
  have a: "\<exists>r. fst (scan_site example_urllib example_bs4 acme_net acme []) = Inr r"
    using w by (rule scan_site_returns)
  have b: "\<exists>ls. process_company example_urllib example_phonelib acme_net remdups acme = Inr ls"
    using w by (rule process_company_returns)
  have c: "\<exists>e. fst (scan_site example_urllib example_bs4 acme_net short_row []) = Inl e"
    by (simp add: scan_site_None [OF n])
  have d: "\<exists>e. process_company example_urllib example_phonelib acme_net remdups short_row
      = Inl e"
    by (simp add: process_company_None [OF n])
  show ?thesis
    using p a b c d
      coordinator_results [OF p(1) p(2), of example_urllib example_bs4 acme_net
        example_phonelib remdups]
      coordinator_results [OF p(1) p(3), of example_urllib example_bs4 acme_net
        example_phonelib remdups]
    by simp
qed

end
